theory Spec2Isabelle
  imports Complex_Main "HOL-Library.Word" "HOL-Library.AList"
begin

unbundle bit_operations_syntax

section \<open>The type double\<close>

text \<open>
  A \<^verbatim>\<open>double\<close> is an IEEE 754 binary64 value: a sign bit, an 11-bit biased exponent
  and a 52-bit fraction. Exponent \<open>2047\<close> is an infinity (fraction \<open>0\<close>) or a NaN;
  exponent \<open>0\<close> is a zero or a subnormal number. The transfers only copy such values;
  \<^verbatim>\<open>IsDeltaEqual\<close> subtracts two of them, takes the absolute value and compares.
\<close>

datatype double = Double (dsign: bool) (dexp: "11 word") (dfrac: "52 word")

instantiation double :: zero
begin

definition zero_double :: double where
  "zero_double = Double False 0 0"

instance ..

end

definition is_nan :: "double \<Rightarrow> bool" where
  "is_nan d = (dexp d = 2047 \<and> dfrac d \<noteq> 0)"

definition is_inf :: "double \<Rightarrow> bool" where
  "is_inf d = (dexp d = 2047 \<and> dfrac d = 0)"

text \<open>
  Every finite double is an integer multiple of \<open>2 ^ -1074\<close>: \<open>mag\<close> is the
  multiple's absolute value, \<open>scaled\<close> the multiple, \<open>valof\<close> the real number.
\<close>

definition mag :: "double \<Rightarrow> nat" where
  "mag d =
     (if dexp d = 0 then unat (dfrac d)
      else (2 ^ 52 + unat (dfrac d)) * 2 ^ (unat (dexp d) - 1))"

definition scaled :: "double \<Rightarrow> int" where
  "scaled d = (if dsign d then - int (mag d) else int (mag d))"

definition valof :: "double \<Rightarrow> real" where
  "valof d = real_of_int (scaled d) / 2 ^ 1074"

fun bitlen :: "nat \<Rightarrow> nat" where
  "bitlen n = (if n = 0 then 0 else Suc (bitlen (n div 2)))"

declare bitlen.simps [simp del]

text \<open>
  Rounding to nearest, ties to even, of the number \<open>N * 2 ^ -1074\<close> with sign \<open>s\<close>:
  up to 53 bits are kept as they are; of a longer \<open>N\<close> the leading 53 bits \<open>q\<close> are
  kept and rounded by the remainder \<open>r\<close>; past the largest exponent the result is an
  infinity.
\<close>

definition round_nearest_even :: "bool \<Rightarrow> nat \<Rightarrow> double" where
  "round_nearest_even s N =
     (if bitlen N \<le> 53 then
        (if N < 2 ^ 52 then Double s 0 (of_nat N) else Double s 1 (of_nat (N - 2 ^ 52)))
      else
        let sh = bitlen N - 53;
            q = N div 2 ^ sh;
            r = N mod 2 ^ sh;
            half = 2 ^ (sh - 1);
            q1 = (if half < r \<or> (r = half \<and> odd q) then q + 1 else q);
            q2 = (if q1 = 2 ^ 53 then 2 ^ 52 else q1);
            e = (if q1 = 2 ^ 53 then sh + 2 else sh + 1)
        in if 2047 \<le> e then Double s 2047 0 else Double s (of_nat e) (of_nat (q2 - 2 ^ 52)))"

definition quiet :: "double \<Rightarrow> double" where
  "quiet d = Double (dsign d) (dexp d) (dfrac d OR 2 ^ 51)"

text \<open>
  The subtraction \<^verbatim>\<open>a - b\<close> in the default rounding mode. A NaN operand gives a NaN,
  and so does the difference of two infinities of one sign (which NaN is the
  processor's matter; these are x86's). An exact zero is \<open>+0\<close>, except \<open>-0 - +0\<close>.
\<close>

definition dsub :: "double \<Rightarrow> double \<Rightarrow> double" where
  "dsub a b =
     (if is_nan a then quiet a
      else if is_nan b then quiet b
      else if is_inf a then
        (if is_inf b \<and> dsign a = dsign b then Double True 2047 (2 ^ 51) else a)
      else if is_inf b then Double (\<not> dsign b) 2047 0
      else if scaled a - scaled b = 0 then Double (dsign a \<and> \<not> dsign b \<and> mag a = 0) 0 0
      else round_nearest_even (scaled a - scaled b < 0) (nat \<bar>scaled a - scaled b\<bar>))"

text \<open>
  The argument of \<^verbatim>\<open>abs\<close> in \<^verbatim>\<open>IsDeltaEqual\<close> is a \<^verbatim>\<open>double\<close>, and the call is taken
  to resolve to the overload for \<^verbatim>\<open>double\<close> that comes with the CUDA headers (not
  to C's \<^verbatim>\<open>abs(int)\<close>, which would truncate): it clears the sign bit.
\<close>

definition dabs :: "double \<Rightarrow> double" where
  "dabs d = Double False (dexp d) (dfrac d)"

text \<open>
  The comparisons \<^verbatim>\<open>x > y\<close> and \<^verbatim>\<open>x <= y\<close>: false when an operand is a NaN; the
  two zeros are equal and the infinities lie beyond every finite value.
\<close>

definition dkey :: "double \<Rightarrow> int" where
  "dkey d = (if is_inf d then (if dsign d then - (2 ^ 2100) else 2 ^ 2100) else scaled d)"

definition dgt :: "double \<Rightarrow> double \<Rightarrow> bool" where
  "dgt x y = (\<not> is_nan x \<and> \<not> is_nan y \<and> dkey y < dkey x)"

definition dle :: "double \<Rightarrow> double \<Rightarrow> bool" where
  "dle x y = (\<not> is_nan x \<and> \<not> is_nan y \<and> dkey x \<le> dkey y)"

section \<open>The host and device memories\<close>

text \<open>
  \<^verbatim>\<open>matrix.h\<close> keeps two raw \<^verbatim>\<open>double*\<close> pointers per matrix, one into host memory
  (\<^verbatim>\<open>malloc\<close>/\<^verbatim>\<open>free\<close>) and one into device memory (\<^verbatim>\<open>cudaMalloc\<close>/\<^verbatim>\<open>cudaFree\<close>).
  A pointer is an address, \<open>0\<close> being \<^verbatim>\<open>nullptr\<close>. A memory is the list of its live
  blocks, each block the list of its \<^verbatim>\<open>double\<close> cells.
\<close>

type_synonym addr = nat
type_synonym block = "double list"
type_synonym heap = "(addr \<times> block) list"

definition nullptr :: addr where
  "nullptr = 0"

datatype cudaError_t = cudaSuccess | cudaErrorMemoryAllocation | cudaErrorInvalidValue

text \<open>
  What the C++ leaves undefined is an error value of the model: signed overflow of an
  \<^verbatim>\<open>int\<close> expression, and a host access through a null, dangling or too short pointer
  (\<open>HostFault\<close>, which also stands for a double \<^verbatim>\<open>free\<close>). \<open>CudaAbort\<close> is the
  \<^verbatim>\<open>abort()\<close> of the \<^verbatim>\<open>CE\<close> macro.
\<close>

datatype error = SignedOverflow | HostFault | CudaAbort cudaError_t

record world =
  host :: heap
  dev :: heap
  host_cap :: nat
  dev_cap :: nat
  last_error :: cudaError_t

definition thn :: "error + 'a \<Rightarrow> ('a \<Rightarrow> error + 'b) \<Rightarrow> error + 'b" where
  "thn r f = (case r of Inl e \<Rightarrow> Inl e | Inr v \<Rightarrow> f v)"

definition block_at :: "heap \<Rightarrow> addr \<Rightarrow> block option" where
  "block_at h p = (if p = nullptr then None else map_of h p)"

definition fresh :: "heap \<Rightarrow> addr" where
  "fresh h = Suc (fold max (map fst h) 0)"

text \<open>
  An allocator hands out an address that no live block has. A request for more than
  the memory's capacity fails, and so does one for a negative element count (the
  conversion to \<^verbatim>\<open>size_t\<close> turns it into a huge size). The cells of a new block are
  indeterminate in C; the model writes \<open>+0.0\<close> in them.
\<close>

definition alloc :: "nat \<Rightarrow> int \<Rightarrow> heap \<Rightarrow> addr \<times> heap" where
  "alloc cap n h =
     (if 0 \<le> n \<and> nat n \<le> cap then (fresh h, (fresh h, replicate (nat n) 0) # h)
      else (nullptr, h))"

definition malloc :: "int \<Rightarrow> world \<Rightarrow> addr \<times> world" where
  "malloc n w = (case alloc (host_cap w) n (host w) of (p, h) \<Rightarrow> (p, w\<lparr>host := h\<rparr>))"

definition free :: "addr \<Rightarrow> world \<Rightarrow> error + world" where
  "free p w =
     (if p = nullptr then Inr w
      else if block_at (host w) p = None then Inl HostFault
      else Inr (w\<lparr>host := AList.delete p (host w)\<rparr>))"

text \<open>
  The CUDA runtime reports a failure through its return value and remembers it as
  the thread's last error, which \<^verbatim>\<open>cudaGetLastError()\<close> reads.
\<close>

definition cudaMalloc :: "int \<Rightarrow> world \<Rightarrow> addr \<times> world" where
  "cudaMalloc n w =
     (case alloc (dev_cap w) n (dev w) of (p, h) \<Rightarrow>
        if p = nullptr then (nullptr, w\<lparr>last_error := cudaErrorMemoryAllocation\<rparr>)
        else (p, w\<lparr>dev := h\<rparr>))"

definition cudaFree :: "addr \<Rightarrow> world \<Rightarrow> world" where
  "cudaFree p w =
     (if p = nullptr then w
      else if block_at (dev w) p = None then w\<lparr>last_error := cudaErrorInvalidValue\<rparr>
      else w\<lparr>dev := AList.delete p (dev w)\<rparr>)"

text \<open>
  \<^verbatim>\<open>cudaMemcpy(dst, src, n * sizeof(double), kind)\<close>, counted in elements. A copy of
  no bytes does nothing. A bad host pointer is undefined behaviour; a bad device
  pointer is an error of the runtime.
\<close>

definition cudaMemcpyHostToDevice :: "addr \<Rightarrow> addr \<Rightarrow> int \<Rightarrow> world \<Rightarrow> error + world" where
  "cudaMemcpyHostToDevice dst src n w =
     (if n = 0 then Inr w
      else case block_at (host w) src of
        None \<Rightarrow> Inl HostFault
      | Some s \<Rightarrow>
          if \<not> (0 \<le> n \<and> nat n \<le> length s) then Inl HostFault
          else case block_at (dev w) dst of
            None \<Rightarrow> Inr (w\<lparr>last_error := cudaErrorInvalidValue\<rparr>)
          | Some d \<Rightarrow>
              if nat n \<le> length d
              then Inr (w\<lparr>dev := AList.update dst (take (nat n) s @ drop (nat n) d) (dev w)\<rparr>)
              else Inr (w\<lparr>last_error := cudaErrorInvalidValue\<rparr>))"

definition cudaMemcpyDeviceToHost :: "addr \<Rightarrow> addr \<Rightarrow> int \<Rightarrow> world \<Rightarrow> error + world" where
  "cudaMemcpyDeviceToHost dst src n w =
     (if n = 0 then Inr w
      else case block_at (host w) dst of
        None \<Rightarrow> Inl HostFault
      | Some d \<Rightarrow>
          if \<not> (0 \<le> n \<and> nat n \<le> length d) then Inl HostFault
          else case block_at (dev w) src of
            None \<Rightarrow> Inr (w\<lparr>last_error := cudaErrorInvalidValue\<rparr>)
          | Some s \<Rightarrow>
              if nat n \<le> length s
              then Inr (w\<lparr>host := AList.update dst (take (nat n) s @ drop (nat n) d) (host w)\<rparr>)
              else Inr (w\<lparr>last_error := cudaErrorInvalidValue\<rparr>))"

text \<open>
  The macro \<^verbatim>\<open>CE\<close>: read the last error; unless it is \<^verbatim>\<open>cudaSuccess\<close>, print it and
  \<^verbatim>\<open>abort()\<close>.
\<close>

definition CE :: "world \<Rightarrow> error + world" where
  "CE w = (if last_error w \<noteq> cudaSuccess then Inl (CudaAbort (last_error w)) else Inr w)"

text \<open>An \<^verbatim>\<open>int\<close> expression: its value when it fits in 32 bits, undefined otherwise.\<close>

definition ck :: "int \<Rightarrow> error + int" where
  "ck x = (if - (2 ^ 31) \<le> x \<and> x < 2 ^ 31 then Inr x else Inl SignedOverflow)"

definition IDX2C :: "int \<Rightarrow> int \<Rightarrow> int \<Rightarrow> error + int" where
  "IDX2C i j ld = thn (ck (j * ld)) (\<lambda>k. ck (k + i))"

section \<open>The struct Matrix\<close>

record Matrix =
  data :: addr
  dev_data :: addr
  rows :: "32 word"
  cols :: "32 word"

definition Matrix_default :: Matrix where
  "Matrix_default = \<lparr>data = nullptr, dev_data = nullptr, rows = 0, cols = 0\<rparr>"

definition Matrix_sized :: "32 word \<Rightarrow> 32 word \<Rightarrow> Matrix" where
  "Matrix_sized inCols inRows = Matrix_default\<lparr>cols := inCols, rows := inRows\<rparr>"

definition Size :: "Matrix \<Rightarrow> error + int" where
  "Size m = ck (sint (rows m) * sint (cols m))"

definition FreeHost :: "Matrix \<Rightarrow> world \<Rightarrow> error + Matrix \<times> world" where
  "FreeHost m w =
     (if data m \<noteq> nullptr
      then thn (free (data m) w) (\<lambda>w'. Inr (m\<lparr>data := nullptr\<rparr>, w'))
      else Inr (m, w))"

definition FreeDevice :: "Matrix \<Rightarrow> world \<Rightarrow> Matrix \<times> world" where
  "FreeDevice m w =
     (if dev_data m \<noteq> nullptr
      then (m\<lparr>dev_data := nullptr\<rparr>, cudaFree (dev_data m) w)
      else (m, w))"

definition destructor :: "Matrix \<Rightarrow> world \<Rightarrow> error + Matrix \<times> world" where
  "destructor m w = thn (FreeHost m w) (\<lambda>(m1, w1). Inr (FreeDevice m1 w1))"

definition AllocHost :: "Matrix \<Rightarrow> world \<Rightarrow> error + Matrix \<times> world" where
  "AllocHost m w =
     thn (FreeHost m w) (\<lambda>(m1, w1).
     thn (Size m1) (\<lambda>n.
       case malloc n w1 of (p, w2) \<Rightarrow> Inr (m1\<lparr>data := p\<rparr>, w2)))"

definition AllocDevice :: "Matrix \<Rightarrow> world \<Rightarrow> error + Matrix \<times> world" where
  "AllocDevice m w =
     (case FreeDevice m w of (m1, w1) \<Rightarrow>
     thn (Size m1) (\<lambda>n.
       case cudaMalloc n w1 of (p, w2) \<Rightarrow>
     thn (CE w2) (\<lambda>w3. Inr (m1\<lparr>dev_data := p\<rparr>, w3))))"

definition IntoDevMatrix :: "Matrix \<Rightarrow> world \<Rightarrow> error + Matrix \<times> world" where
  "IntoDevMatrix m w =
     thn (if dev_data m = nullptr then AllocDevice m w else Inr (m, w)) (\<lambda>(m1, w1).
     thn (Size m1) (\<lambda>n.
     thn (cudaMemcpyHostToDevice (dev_data m1) (data m1) n w1) (\<lambda>w2.
     thn (CE w2) (\<lambda>w3. Inr (m1, w3)))))"

definition FromDevMatrix :: "Matrix \<Rightarrow> world \<Rightarrow> error + Matrix \<times> world" where
  "FromDevMatrix m w =
     thn (if data m = nullptr then AllocHost m w else Inr (m, w)) (\<lambda>(m1, w1).
     thn (Size m1) (\<lambda>n.
     thn (cudaMemcpyDeviceToHost (data m1) (dev_data m1) n w1) (\<lambda>w2.
     thn (CE w2) (\<lambda>w3. Inr (m1, w3)))))"

text \<open>A read and a write of one \<^verbatim>\<open>double\<close> through a host pointer, \<^verbatim>\<open>p[k]\<close>.\<close>

definition load :: "addr \<Rightarrow> int \<Rightarrow> world \<Rightarrow> error + double" where
  "load p k w =
     (case block_at (host w) p of
        None \<Rightarrow> Inl HostFault
      | Some b \<Rightarrow> if 0 \<le> k \<and> nat k < length b then Inr (b ! nat k) else Inl HostFault)"

definition store :: "addr \<Rightarrow> int \<Rightarrow> double \<Rightarrow> world \<Rightarrow> error + world" where
  "store p k v w =
     (case block_at (host w) p of
        None \<Rightarrow> Inl HostFault
      | Some b \<Rightarrow>
          if 0 \<le> k \<and> nat k < length b
          then Inr (w\<lparr>host := AList.update p (b[nat k := v]) (host w)\<rparr>)
          else Inl HostFault)"

definition At :: "Matrix \<Rightarrow> int \<Rightarrow> int \<Rightarrow> world \<Rightarrow> error + double" where
  "At m i j w =
     thn (ck (i * sint (cols m))) (\<lambda>a.
     thn (ck (a + j)) (\<lambda>k. load (data m) k w))"

text \<open>
  The two loops of \<^verbatim>\<open>Transposed()\<close>, the inner one over \<open>j\<close> and the outer one over
  \<open>i\<close>, writing \<^verbatim>\<open>t[IDX2C(i, j, rows)] = At(i, j)\<close>.
\<close>

function Transposed_cols :: "Matrix \<Rightarrow> addr \<Rightarrow> int \<Rightarrow> int \<Rightarrow> world \<Rightarrow> error + world" where
  "Transposed_cols m t i j w =
     (if j < sint (cols m) then
        (case At m i j w of
           Inl e \<Rightarrow> Inl e
         | Inr v \<Rightarrow>
             (case IDX2C i j (sint (rows m)) of
                Inl e \<Rightarrow> Inl e
              | Inr k \<Rightarrow>
                  (case store t k v w of
                     Inl e \<Rightarrow> Inl e
                   | Inr w' \<Rightarrow> Transposed_cols m t i (j + 1) w')))
      else Inr w)"
  by pat_completeness auto
termination
  by (relation "measure (\<lambda>(m, t, i, j, w). nat (sint (cols m) - j))") auto

function Transposed_rows :: "Matrix \<Rightarrow> addr \<Rightarrow> int \<Rightarrow> world \<Rightarrow> error + world" where
  "Transposed_rows m t i w =
     (if i < sint (rows m) then
        (case Transposed_cols m t i 0 w of
           Inl e \<Rightarrow> Inl e
         | Inr w' \<Rightarrow> Transposed_rows m t (i + 1) w')
      else Inr w)"
  by pat_completeness auto
termination
  by (relation "measure (\<lambda>(m, t, i, w). nat (sint (rows m) - i))") auto

definition Transposed :: "Matrix \<Rightarrow> world \<Rightarrow> error + addr \<times> world" where
  "Transposed m w =
     thn (Size m) (\<lambda>n.
       case malloc n w of (t, w1) \<Rightarrow>
     thn (Transposed_rows m t 0 w1) (\<lambda>w2. Inr (t, w2)))"

definition IntoDevMatrix_ColMajor :: "Matrix \<Rightarrow> world \<Rightarrow> error + Matrix \<times> world" where
  "IntoDevMatrix_ColMajor m w =
     thn (if dev_data m = nullptr then AllocDevice m w else Inr (m, w)) (\<lambda>(m1, w1).
     thn (Transposed m1 w1) (\<lambda>(t, w2).
     thn (Size m1) (\<lambda>n.
     thn (cudaMemcpyHostToDevice (dev_data m1) t n w2) (\<lambda>w3.
     thn (CE w3) (\<lambda>w4.
     thn (free t w4) (\<lambda>w5. Inr (m1, w5)))))))"

definition FromDevMatrix_ColMajor :: "Matrix \<Rightarrow> world \<Rightarrow> error + Matrix \<times> world" where
  "FromDevMatrix_ColMajor m w =
     thn (if data m = nullptr then AllocHost m w else Inr (m, w)) (\<lambda>(m1, w1).
     thn (Size m1) (\<lambda>n.
     thn (cudaMemcpyDeviceToHost (data m1) (dev_data m1) n w1) (\<lambda>w2.
     thn (CE w2) (\<lambda>w3.
     thn (Transposed m1 w3) (\<lambda>(fixed, w4).
     thn (free (data m1) w4) (\<lambda>w5. Inr (m1\<lparr>data := fixed\<rparr>, w5)))))))"

text \<open>
  \<^verbatim>\<open>IsDeltaEqual(other, delta)\<close>: the dimension test, then the loop over the
  \<^verbatim>\<open>Size()\<close> cells, which re-evaluates \<^verbatim>\<open>Size()\<close> at every test of its condition.
\<close>

function IsDeltaEqual_loop :: "Matrix \<Rightarrow> Matrix \<Rightarrow> double \<Rightarrow> world \<Rightarrow> int \<Rightarrow> error + bool" where
  "IsDeltaEqual_loop m other delta w i =
     (case Size m of
        Inl e \<Rightarrow> Inl e
      | Inr n \<Rightarrow>
          if i < n then
            (case load (data m) i w of
               Inl e \<Rightarrow> Inl e
             | Inr a \<Rightarrow>
                 (case load (data other) i w of
                    Inl e \<Rightarrow> Inl e
                  | Inr b \<Rightarrow>
                      if dgt (dabs (dsub a b)) delta then Inr False
                      else IsDeltaEqual_loop m other delta w (i + 1)))
          else Inr True)"
  by pat_completeness auto
termination
  by (relation "measure (\<lambda>(m, other, delta, w, i).
        nat ((case Size m of Inl e \<Rightarrow> 0 | Inr n \<Rightarrow> n) - i))") auto

definition IsDeltaEqual :: "Matrix \<Rightarrow> Matrix \<Rightarrow> double \<Rightarrow> world \<Rightarrow> error + bool" where
  "IsDeltaEqual m other delta w =
     (if cols m \<noteq> cols other \<or> rows m \<noteq> rows other then Inr False
      else IsDeltaEqual_loop m other delta w 0)"

text \<open>The default argument \<^verbatim>\<open>1e-3\<close>: the double \<^verbatim>\<open>0x3F50624DD2F1A9FC\<close>.\<close>

definition default_delta :: double where
  "default_delta = Double False 1013 0x624DD2F1A9FC"

section \<open>Move assignment\<close>

text \<open>
  \<^verbatim>\<open>operator=(Matrix&& other)\<close> changes two objects, \<^verbatim>\<open>*this\<close> and \<^verbatim>\<open>other\<close>, which
  a caller may make the same object. The objects therefore live in a store, and the
  operator takes the two places; each statement of its body reads and writes the
  store in turn.
\<close>

type_synonym objects = "nat \<Rightarrow> Matrix"

definition move_assign :: "nat \<Rightarrow> nat \<Rightarrow> objects \<Rightarrow> world \<Rightarrow> error + objects \<times> world" where
  "move_assign this other s w =
     thn (FreeHost (s this) w) (\<lambda>(m1, w1).
       case FreeDevice m1 w1 of (m2, w2) \<Rightarrow>
         let s1 = s(this := m2);
             s2 = s1(this := (s1 this)\<lparr>data := data (s1 other)\<rparr>);
             s3 = s2(this := (s2 this)\<lparr>dev_data := dev_data (s2 other)\<rparr>);
             s4 = s3(this := (s3 this)\<lparr>cols := cols (s3 other)\<rparr>);
             s5 = s4(this := (s4 this)\<lparr>rows := rows (s4 other)\<rparr>);
             s6 = s5(other := (s5 other)\<lparr>data := nullptr\<rparr>);
             s7 = s6(other := (s6 other)\<lparr>dev_data := nullptr\<rparr>)
         in Inr (s7, w2))"

definition move_construct :: "nat \<Rightarrow> nat \<Rightarrow> objects \<Rightarrow> world \<Rightarrow> error + objects \<times> world" where
  "move_construct this other s w = move_assign this other (s(this := Matrix_default)) w"

section \<open>Well-formed states and the running examples\<close>

text \<open>
  A matrix has a populated host buffer when \<^verbatim>\<open>data\<close> points to a live host block of
  exactly \<^verbatim>\<open>Size()\<close> cells, which includes that \<^verbatim>\<open>rows * cols\<close> is an \<^verbatim>\<open>int\<close>.
\<close>

definition populated :: "Matrix \<Rightarrow> world \<Rightarrow> bool" where
  "populated m w =
     (case Size m of
        Inl e \<Rightarrow> False
      | Inr n \<Rightarrow>
          (case block_at (host w) (data m) of
             None \<Rightarrow> False
           | Some b \<Rightarrow> int (length b) = n))"

text \<open>
  The device side lets a push go through when no earlier error is pending and either
  there is no device buffer yet and the device can allocate \<^verbatim>\<open>Size()\<close> cells, or
  the device buffer is live and at least that long.
\<close>

definition device_ready :: "Matrix \<Rightarrow> world \<Rightarrow> bool" where
  "device_ready m w =
     (last_error w = cudaSuccess \<and>
      (case Size m of
         Inl e \<Rightarrow> False
       | Inr n \<Rightarrow>
           if dev_data m = nullptr then 0 \<le> n \<and> nat n \<le> dev_cap w
           else n = 0 \<or>
             (case block_at (dev w) (dev_data m) of
                None \<Rightarrow> False
              | Some d \<Rightarrow> nat n \<le> length d)))"

text \<open>
  The two transposing transfers also allocate a temporary host block of
  \<^verbatim>\<open>Size()\<close> cells, which the host must be able to provide.
\<close>

definition host_can_transpose :: "Matrix \<Rightarrow> world \<Rightarrow> bool" where
  "host_can_transpose m w =
     (case Size m of Inl e \<Rightarrow> False | Inr n \<Rightarrow> 0 \<le> n \<and> nat n \<le> host_cap w)"

text \<open>The cell at offset \<open>k\<close> of the block at \<open>p\<close>, when there is one.\<close>

definition cell :: "heap \<Rightarrow> addr \<Rightarrow> int \<Rightarrow> double option" where
  "cell h p k =
     (case block_at h p of
        None \<Rightarrow> None
      | Some b \<Rightarrow> if 0 \<le> k \<and> nat k < length b then Some (b ! nat k) else None)"

text \<open>
  The column-major image of a row-major \<open>R\<close> by \<open>C\<close> block: its cell \<open>j * R + i\<close> is
  cell \<open>i * C + j\<close> of the block. It states what \<^verbatim>\<open>Transposed()\<close> computes.
\<close>

definition colmajor :: "nat \<Rightarrow> nat \<Rightarrow> block \<Rightarrow> block" where
  "colmajor R C D = map (\<lambda>k. D ! ((k mod R) * C + k div R)) [0..<R * C]"

text \<open>
  The doubles \<open>1.0\<close> to \<open>7.0\<close>, \<open>9.0\<close>, \<open>0.5\<close> and \<open>0.25\<close>, the negative number
  \<open>- 2 ^ -60\<close> and a NaN, for the examples.
\<close>

definition d1 :: double where "d1 = Double False 1023 0"
definition d2 :: double where "d2 = Double False 1024 0"
definition d3 :: double where "d3 = Double False 1024 (2 ^ 51)"
definition d4 :: double where "d4 = Double False 1025 0"
definition d5 :: double where "d5 = Double False 1025 (2 ^ 50)"
definition d6 :: double where "d6 = Double False 1025 (2 ^ 51)"
definition d7 :: double where "d7 = Double False 1025 (2 ^ 51 + 2 ^ 50)"
definition d9 :: double where "d9 = Double False 1026 (2 ^ 49)"
definition d_quarter :: double where "d_quarter = Double False 1021 0"
definition d_neg_tiny :: double where "d_neg_tiny = Double True 963 0"
definition d_nan :: double where "d_nan = Double False 2047 1"

text \<open>
  The running examples: a world with four host and two device blocks, the first host
  block holding the 2 by 3 matrix \<open>[[1, 2, 3], [4, 5, 6]]\<close> row by row, and a store
  of four objects, object 1 owning that matrix and object 3 a 2 by 2 matrix.
\<close>

definition ex_world :: world where
  "ex_world =
     \<lparr>host = [(1, [d1, d2, d3, d4, d5, d6]), (2, [d9]), (3, [d1, d2, d3, d4, d5, d7]),
              (4, [d1, d2, d3, d4])],
      dev = [(1, [0]), (2, [0, 0, 0, 0, 0, 0])],
      host_cap = 100, dev_cap = 100, last_error = cudaSuccess\<rparr>"

definition ex_objs :: objects where
  "ex_objs = (\<lambda>x. Matrix_default)
     (0 := \<lparr>data = 2, dev_data = 1, rows = 1, cols = 1\<rparr>,
      1 := \<lparr>data = 1, dev_data = 2, rows = 2, cols = 3\<rparr>,
      2 := \<lparr>data = 3, dev_data = nullptr, rows = 2, cols = 3\<rparr>,
      3 := \<lparr>data = 4, dev_data = nullptr, rows = 2, cols = 2\<rparr>)"

text \<open>
  Four 1 by 1 matrices for the comparisons: a NaN, \<open>+0.0\<close>, \<open>1.0\<close> and
  \<open>- 2 ^ -60\<close>.
\<close>

definition ex_fp_world :: world where
  "ex_fp_world =
     \<lparr>host = [(1, [d_nan]), (2, [0]), (3, [d1]), (4, [d_neg_tiny])], dev = [],
      host_cap = 100, dev_cap = 100, last_error = cudaSuccess\<rparr>"

definition ex_fp_objs :: objects where
  "ex_fp_objs = (\<lambda>x. Matrix_default)
     (0 := \<lparr>data = 1, dev_data = nullptr, rows = 1, cols = 1\<rparr>,
      1 := \<lparr>data = 2, dev_data = nullptr, rows = 1, cols = 1\<rparr>,
      2 := \<lparr>data = 3, dev_data = nullptr, rows = 1, cols = 1\<rparr>,
      3 := \<lparr>data = 4, dev_data = nullptr, rows = 1, cols = 1\<rparr>)"

section \<open>Basic facts\<close>



lemma dsub_self: "is_nan (dsub a a) \<or> dsub a a = 0"
proof -
  have "(x :: 52 word) OR 2 ^ 51 \<noteq> 0" for x
    by (simp add: or_eq_0_iff)
  then show ?thesis
    by (auto simp: dsub_def quiet_def is_nan_def is_inf_def zero_double_def)
qed


lemma is_nan_dabs: "is_nan (dabs x) = is_nan x"
  by (simp add: is_nan_def dabs_def)

lemma dabs_zero: "dabs 0 = 0"
  by (simp add: dabs_def zero_double_def)


lemma not_dgt_self_diff: "dle 0 delta \<Longrightarrow> \<not> dgt (dabs (dsub a a)) delta"
  using dsub_self [of a] by (auto simp: dgt_def dle_def is_nan_dabs dabs_zero)

lemma dle_zero_positive: "\<not> dsign d \<Longrightarrow> dexp d \<noteq> 2047 \<Longrightarrow> dle 0 d"
  by (simp add: dle_def is_nan_def is_inf_def dkey_def scaled_def mag_def zero_double_def)

text \<open>The default tolerance is the double nearest to \<open>1 / 1000\<close>, within half a unit
  in its last place.\<close>

lemma default_delta_nearest: "\<bar>valof default_delta - 1 / 1000\<bar> \<le> 1 / 2 ^ 63"
  by (simp add: default_delta_def valof_def scaled_def mag_def)



lemma thn_Inl: "thn (Inl e) f = Inl e"
  by (simp add: thn_def)

lemma thn_Inr: "thn (Inr v) f = f v"
  by (simp add: thn_def)

lemma block_at_nullptr: "block_at h nullptr = None"
  by (simp add: block_at_def)

lemma block_at_Some_nonnull: "block_at h p = Some b \<Longrightarrow> p \<noteq> nullptr"
  by (auto simp: block_at_def split: if_splits)

lemma block_at_delete: "block_at (AList.delete p h) q = (if q = p then None else block_at h q)"
  by (simp add: block_at_def delete_conv')

lemma block_at_update:
  "block_at (AList.update p b h) q = (if q = nullptr then None else if q = p then Some b else block_at h q)"
  by (simp add: block_at_def update_conv')

lemma block_at_Cons:
  "block_at ((p, b) # h) q = (if q = nullptr then None else if q = p then Some b else block_at h q)"
  by (simp add: block_at_def)

lemma fold_max_ge: "(a::nat) \<le> fold max xs a"
proof (induction xs arbitrary: a)
  case Nil then show ?case by simp
next
  case (Cons y ys)
  have "a \<le> max y a" by simp
  also have "\<dots> \<le> fold max ys (max y a)" by (rule Cons.IH)
  finally show ?case by simp
qed

lemma fold_max_mem: "x \<in> set xs \<Longrightarrow> (x::nat) \<le> fold max xs a"
proof (induction xs arbitrary: a)
  case Nil then show ?case by simp
next
  case (Cons y ys)
  show ?case
  proof (cases "x = y")
    case True
    have "y \<le> max y a" by simp
    also have "\<dots> \<le> fold max ys (max y a)" by (rule fold_max_ge)
    finally show ?thesis using True by simp
  next
    case False
    with Cons show ?thesis by simp
  qed
qed

lemma fresh_nonnull: "fresh h \<noteq> nullptr"
  by (simp add: fresh_def nullptr_def)

lemma fresh_unused: "map_of h (fresh h) = None"
proof -
  have "fresh h \<notin> fst ` set h"
  proof
    assume "fresh h \<in> fst ` set h"
    then have "fresh h \<in> set (map fst h)" by simp
    then have "fresh h \<le> fold max (map fst h) 0" by (rule fold_max_mem)
    then show False by (simp add: fresh_def)
  qed
  then show ?thesis by (simp add: map_of_eq_None_iff)
qed

lemma block_at_fresh: "block_at h (fresh h) = None"
  by (simp add: block_at_def fresh_unused)

lemma delete_fresh: "AList.delete (fresh h) h = h"
  using fresh_unused [of h] by (simp add: map_of_eq_None_iff)

lemma update_same: "block_at h p = Some b \<Longrightarrow> AList.update p b h = h"
  by (auto simp: block_at_def update_triv split: if_splits)

lemma CE_Inr: "CE w = Inr w' \<Longrightarrow> w' = w \<and> last_error w = cudaSuccess"
  by (auto simp: CE_def split: if_splits)

lemma populatedD:
  "populated m w \<Longrightarrow> \<exists>n D. Size m = Inr n \<and> block_at (host w) (data m) = Some D \<and> int (length D) = n"
  by (auto simp: populated_def split: sum.splits option.splits)

lemma FreeHost_null: "data m = nullptr \<Longrightarrow> FreeHost m w = Inr (m, w)"
  by (simp add: FreeHost_def)

lemma FreeDevice_null: "dev_data m = nullptr \<Longrightarrow> FreeDevice m w = (m, w)"
  by (simp add: FreeDevice_def)

lemma FreeHost_Inr:
  "FreeHost m w = Inr (m', w') \<Longrightarrow>
     m' = m\<lparr>data := nullptr\<rparr> \<and> block_at (host w') (data m) = None \<and>
     w' = (if data m = nullptr then w else w\<lparr>host := AList.delete (data m) (host w)\<rparr>)"
  by (auto simp: FreeHost_def free_def thn_def block_at_delete block_at_nullptr split: if_splits)

lemma FreeDevice_eq:
  "FreeDevice m w = (m', w') \<Longrightarrow>
     m' = m\<lparr>dev_data := nullptr\<rparr> \<and> block_at (dev w') (dev_data m) = None \<and> host w' = host w"
  by (auto simp: FreeDevice_def cudaFree_def block_at_delete block_at_nullptr split: if_splits)

lemma destructor_null:
  "data m = nullptr \<Longrightarrow> dev_data m = nullptr \<Longrightarrow> destructor m w = Inr (m, w)"
  by (simp add: destructor_def FreeHost_null FreeDevice_null thn_def)

lemma AllocDevice_Inr:
  assumes "AllocDevice m w = Inr (m1, w1)"
  shows "\<exists>n. Size m = Inr n \<and> 0 \<le> n \<and>
           block_at (dev w1) (dev_data m1) = Some (replicate (nat n) 0)"
    and "data m1 = data m" and "rows m1 = rows m" and "cols m1 = cols m"
    and "host w1 = host w" and "host_cap w1 = host_cap w" and "last_error w1 = cudaSuccess"
  using assms
  by (auto simp: AllocDevice_def FreeDevice_def cudaFree_def cudaMalloc_def alloc_def thn_def
        Size_def CE_def block_at_Cons fresh_nonnull
      split: if_splits sum.splits prod.splits)

lemma cudaMemcpyHostToDevice_Inr:
  assumes "cudaMemcpyHostToDevice dst src n w = Inr w'" and "last_error w' = cudaSuccess"
  shows "host w' = host w" and "host_cap w' = host_cap w"
    and "n = 0 \<Longrightarrow> w' = w"
    and "n \<noteq> 0 \<Longrightarrow> \<exists>s d. block_at (host w) src = Some s \<and> 0 \<le> n \<and> nat n \<le> length s \<and>
           block_at (dev w) dst = Some d \<and> nat n \<le> length d \<and>
           block_at (dev w') dst = Some (take (nat n) s @ drop (nat n) d)"
  using assms
  by (auto simp: cudaMemcpyHostToDevice_def block_at_update
      dest: block_at_Some_nonnull split: if_splits option.splits)

lemma cudaMemcpyDeviceToHost_Inr:
  assumes "cudaMemcpyDeviceToHost dst src n w = Inr w'" and "last_error w' = cudaSuccess"
  shows "dev w' = dev w" and "host_cap w' = host_cap w"
    and "n = 0 \<Longrightarrow> w' = w"
    and "n \<noteq> 0 \<Longrightarrow> \<exists>s d. block_at (dev w) src = Some s \<and> 0 \<le> n \<and> nat n \<le> length s \<and>
           block_at (host w) dst = Some d \<and> nat n \<le> length d \<and>
           host w' = AList.update dst (take (nat n) s @ drop (nat n) d) (host w)"
  using assms
  by (auto simp: cudaMemcpyDeviceToHost_def
      split: if_splits option.splits)

lemma move_assign_Inr:
  assumes "move_assign this other s w = Inr (s', w')"
  shows "\<exists>m1 w1. FreeHost (s this) w = Inr (m1, w1) \<and> w' = snd (FreeDevice m1 w1)"
    and "this \<noteq> other \<Longrightarrow> s' this = \<lparr>data = data (s other), dev_data = dev_data (s other),
           rows = rows (s other), cols = cols (s other)\<rparr>"
    and "s' other = (s' other)\<lparr>data := nullptr, dev_data := nullptr\<rparr>"
    and "rows (s' other) = rows (s other)" and "cols (s' other) = cols (s other)"
    and "\<And>x. x \<noteq> this \<Longrightarrow> x \<noteq> other \<Longrightarrow> s' x = s x"
  using assms
  by (auto simp: move_assign_def thn_def Let_def split: sum.splits prod.splits
        dest!: FreeHost_Inr FreeDevice_eq)

lemma move_assign_total:
  assumes "data (s this) = nullptr \<or> block_at (host w) (data (s this)) \<noteq> None"
  shows "\<exists>s' w'. move_assign this other s w = Inr (s', w')"
  using assms
  by (auto simp: move_assign_def FreeHost_def free_def thn_def Let_def split: prod.splits)

lemma thn_InrE:
  assumes "thn r f = Inr y"
  obtains v where "r = Inr v" and "f v = Inr y"
  using assms by (cases r) (simp_all add: thn_def)

lemma ensure_dev_Inr:
  assumes "(if dev_data m = nullptr then AllocDevice m w else Inr (m, w)) = Inr (m1, w1)"
  shows "data m1 = data m" and "rows m1 = rows m" and "cols m1 = cols m"
    and "host w1 = host w" and "host_cap w1 = host_cap w" and "Size m1 = Size m"
    and "dev_data m = nullptr \<Longrightarrow> last_error w1 = cudaSuccess \<and>
           (\<exists>n. Size m = Inr n \<and> 0 \<le> n \<and>
              block_at (dev w1) (dev_data m1) = Some (replicate (nat n) 0))"
    and "dev_data m \<noteq> nullptr \<Longrightarrow> m1 = m \<and> w1 = w"
proof -
  have a: "data m1 = data m \<and> rows m1 = rows m \<and> cols m1 = cols m \<and>
    host w1 = host w \<and> host_cap w1 = host_cap w"
  proof (cases "dev_data m = nullptr")
    case True
    with assms have "AllocDevice m w = Inr (m1, w1)" by simp
    from AllocDevice_Inr(2-6) [OF this] show ?thesis by simp
  next
    case False
    with assms show ?thesis by simp
  qed
  then show "data m1 = data m" and "rows m1 = rows m" and "cols m1 = cols m"
    and "host w1 = host w" and "host_cap w1 = host_cap w" by simp_all
  from a show "Size m1 = Size m" by (simp add: Size_def)
  show "last_error w1 = cudaSuccess \<and>
           (\<exists>n. Size m = Inr n \<and> 0 \<le> n \<and>
              block_at (dev w1) (dev_data m1) = Some (replicate (nat n) 0))"
    if "dev_data m = nullptr"
  proof -
    from that assms have "AllocDevice m w = Inr (m1, w1)" by simp
    from AllocDevice_Inr(1,7) [OF this] show ?thesis by simp
  qed
  show "m1 = m \<and> w1 = w" if "dev_data m \<noteq> nullptr"
    using that assms by simp
qed

lemma IntoDevMatrix_Inr:
  assumes r: "IntoDevMatrix m w = Inr (m1, w1)"
    and n: "Size m = Inr n" and D: "block_at (host w) (data m) = Some D" and l: "int (length D) = n"
  shows "data m1 = data m" and "rows m1 = rows m" and "cols m1 = cols m"
    and "host w1 = host w" and "host_cap w1 = host_cap w" and "last_error w1 = cudaSuccess"
    and "n \<noteq> 0 \<Longrightarrow> \<exists>S. block_at (dev w1) (dev_data m1) = Some S \<and> take (nat n) S = D"
proof -
  from r obtain v where
    "(if dev_data m = nullptr then AllocDevice m w else Inr (m, w)) = Inr v"
    and "(case v of (m0, w0) \<Rightarrow>
           thn (Size m0) (\<lambda>n. thn (cudaMemcpyHostToDevice (dev_data m0) (data m0) n w0)
           (\<lambda>w2. thn (CE w2) (\<lambda>w3. Inr (m0, w3))))) = Inr (m1, w1)"
    unfolding IntoDevMatrix_def by (rule thn_InrE)
  then obtain m0 w0 where
    e: "(if dev_data m = nullptr then AllocDevice m w else Inr (m, w)) = Inr (m0, w0)"
    and "thn (Size m0) (\<lambda>n. thn (cudaMemcpyHostToDevice (dev_data m0) (data m0) n w0)
           (\<lambda>w2. thn (CE w2) (\<lambda>w3. Inr (m0, w3)))) = Inr (m1, w1)"
    by (cases v) simp
  moreover have "Size m0 = Inr n" using ensure_dev_Inr(6) [OF e] n by simp
  ultimately have "thn (cudaMemcpyHostToDevice (dev_data m0) (data m0) n w0)
           (\<lambda>w2. thn (CE w2) (\<lambda>w3. Inr (m0, w3))) = Inr (m1, w1)"
    by (simp add: thn_Inr)
  then obtain w2 where
    c: "cudaMemcpyHostToDevice (dev_data m0) (data m0) n w0 = Inr w2"
    and c2: "thn (CE w2) (\<lambda>w3. Inr (m0, w3)) = Inr (m1, w1)"
    by (rule thn_InrE)
  from c2 obtain w3 where "CE w2 = Inr w3"
    and "Inr (m0, w3) = (Inr (m1, w1) :: error + Matrix \<times> world)"
    by (rule thn_InrE)
  then have ce: "CE w2 = Inr w1" and m1: "m1 = m0"
    by simp_all
  note f = ensure_dev_Inr [OF e]
  from CE_Inr [OF ce] have w1: "w1 = w2" and ok: "last_error w2 = cudaSuccess" by simp_all
  note g = cudaMemcpyHostToDevice_Inr [OF c ok]
  show "data m1 = data m" and "rows m1 = rows m" and "cols m1 = cols m"
    and "host w1 = host w" and "host_cap w1 = host_cap w" and "last_error w1 = cudaSuccess"
    using f g m1 w1 ok by simp_all
  show "\<exists>S. block_at (dev w1) (dev_data m1) = Some S \<and> take (nat n) S = D" if "n \<noteq> 0"
  proof -
    from g(4) [OF that] obtain s d where
      "block_at (host w0) (data m0) = Some s" and "nat n \<le> length s"
      and "block_at (dev w1) (dev_data m1) = Some (take (nat n) s @ drop (nat n) d)"
      and "nat n \<le> length d"
      using w1 m1 by auto
    moreover have "s = D" using calculation(1) f D by simp
    ultimately show ?thesis using l by auto
  qed
qed

lemma FromDevMatrix_Inr:
  assumes r: "FromDevMatrix m w = Inr (m1, w1)"
    and n: "Size m = Inr n" and D: "block_at (host w) (data m) = Some D" and l: "int (length D) = n"
    and S: "n \<noteq> 0 \<Longrightarrow> \<exists>S. block_at (dev w) (dev_data m) = Some S \<and> take (nat n) S = D"
  shows "m1 = m" and "host w1 = host w" and "dev w1 = dev w"
proof -
  from D have nn: "data m \<noteq> nullptr" by (rule block_at_Some_nonnull)
  from r nn n have "thn (cudaMemcpyDeviceToHost (data m) (dev_data m) n w)
      (\<lambda>w2. thn (CE w2) (\<lambda>w3. Inr (m, w3))) = Inr (m1, w1)"
    by (simp add: FromDevMatrix_def thn_Inr)
  then obtain w2 where
    c: "cudaMemcpyDeviceToHost (data m) (dev_data m) n w = Inr w2"
    and c2: "thn (CE w2) (\<lambda>w3. Inr (m, w3)) = Inr (m1, w1)"
    by (rule thn_InrE)
  from c2 obtain w3 where ce3: "CE w2 = Inr w3" and "Inr (m, w3) = (Inr (m1, w1) :: error + Matrix \<times> world)"
    by (rule thn_InrE)
  then have ce: "CE w2 = Inr w1" and m1: "m1 = m"
    by simp_all
  from CE_Inr [OF ce] have w1: "w1 = w2" and ok: "last_error w2 = cudaSuccess" by simp_all
  note g = cudaMemcpyDeviceToHost_Inr [OF c ok]
  show "m1 = m" by (rule m1)
  show "dev w1 = dev w" using g(1) w1 by simp
  show "host w1 = host w"
  proof (cases "n = 0")
    case True
    with g(3) w1 show ?thesis by simp
  next
    case False
    from g(4) [OF False] obtain s d where
      s: "block_at (dev w) (dev_data m) = Some s" and "nat n \<le> length s"
      and d: "block_at (host w) (data m) = Some d"
      and h: "host w2 = AList.update (data m) (take (nat n) s @ drop (nat n) d) (host w)"
      by blast
    from S [OF False] s have "take (nat n) s = D" by auto
    moreover from d D have "d = D" by simp
    ultimately have "take (nat n) s @ drop (nat n) d = D" using l by auto
    with h have "host w2 = AList.update (data m) D (host w)" by simp
    also have "\<dots> = host w" using D by (rule update_same)
    finally show ?thesis using w1 by simp
  qed
qed


lemma CE_ok: "last_error w = cudaSuccess \<Longrightarrow> CE w = Inr w"
  by (simp add: CE_def)

lemma AllocDevice_ok:
  assumes "dev_data m = nullptr" and "Size m = Inr n" and "0 \<le> n" and "nat n \<le> dev_cap w"
    and "last_error w = cudaSuccess"
  shows "AllocDevice m w =
           Inr (m\<lparr>dev_data := fresh (dev w)\<rparr>,
                w\<lparr>dev := (fresh (dev w), replicate (nat n) 0) # dev w\<rparr>)"
proof -
  have "FreeDevice m w = (m, w)" using assms(1) by (rule FreeDevice_null)
  moreover have "cudaMalloc n w =
      (fresh (dev w), w\<lparr>dev := (fresh (dev w), replicate (nat n) 0) # dev w\<rparr>)"
    using assms(3,4) by (simp add: cudaMalloc_def alloc_def fresh_nonnull)
  ultimately show ?thesis
    using assms(2,5) by (simp add: AllocDevice_def thn_Inr CE_def)
qed

lemma cudaMemcpyHostToDevice_ok:
  assumes "n = 0 \<or> (\<exists>s d. block_at (host w) src = Some s \<and> 0 \<le> n \<and> nat n \<le> length s \<and>
             block_at (dev w) dst = Some d \<and> nat n \<le> length d)"
  shows "\<exists>w'. cudaMemcpyHostToDevice dst src n w = Inr w' \<and> last_error w' = last_error w"
  using assms by (auto simp: cudaMemcpyHostToDevice_def)

lemma cudaMemcpyDeviceToHost_ok:
  assumes "n = 0 \<or> (\<exists>s d. block_at (dev w) src = Some s \<and> 0 \<le> n \<and> nat n \<le> length s \<and>
             block_at (host w) dst = Some d \<and> nat n \<le> length d)"
  shows "\<exists>w'. cudaMemcpyDeviceToHost dst src n w = Inr w' \<and> last_error w' = last_error w"
  using assms by (auto simp: cudaMemcpyDeviceToHost_def)

lemma ensure_dev_ok:
  assumes "device_ready m w" and n: "Size m = Inr n" and nn: "0 \<le> n"
  shows "\<exists>m0 w0 d. (if dev_data m = nullptr then AllocDevice m w else Inr (m, w)) = Inr (m0, w0) \<and>
           last_error w0 = cudaSuccess \<and> host w0 = host w \<and> host_cap w0 = host_cap w \<and>
           data m0 = data m \<and> rows m0 = rows m \<and> cols m0 = cols m \<and>
           (n \<noteq> 0 \<longrightarrow> block_at (dev w0) (dev_data m0) = Some d \<and> nat n \<le> length d)"
proof (cases "dev_data m = nullptr")
  case True
  with assms have "nat n \<le> dev_cap w" and ok: "last_error w = cudaSuccess"
    by (simp_all add: device_ready_def)
  from AllocDevice_ok [OF True n nn this]
  show ?thesis using True ok by (simp add: block_at_Cons fresh_nonnull)
next
  case False
  with assms have ok: "last_error w = cudaSuccess"
    and "n \<noteq> 0 \<longrightarrow> (\<exists>d. block_at (dev w) (dev_data m) = Some d \<and> nat n \<le> length d)"
    by (auto simp: device_ready_def split: option.splits)
  with False show ?thesis by auto
qed

lemma IntoDevMatrix_total:
  assumes p: "populated m w" and r: "device_ready m w"
  shows "\<exists>m1 w1. IntoDevMatrix m w = Inr (m1, w1)"
proof -
  from populatedD [OF p] obtain n D where n: "Size m = Inr n"
    and D: "block_at (host w) (data m) = Some D" and l: "int (length D) = n" by blast
  from l have nn: "0 \<le> n" by auto
  from ensure_dev_ok [OF r n nn] obtain m0 w0 d where
    e: "(if dev_data m = nullptr then AllocDevice m w else Inr (m, w)) = Inr (m0, w0)"
    and ok: "last_error w0 = cudaSuccess" and h: "host w0 = host w"
    and f: "data m0 = data m" "rows m0 = rows m" "cols m0 = cols m"
    and d: "n \<noteq> 0 \<longrightarrow> block_at (dev w0) (dev_data m0) = Some d \<and> nat n \<le> length d"
    by blast
  have n0: "Size m0 = Inr n" using n f by (simp add: Size_def)
  have "n = 0 \<or> (\<exists>s d. block_at (host w0) (data m0) = Some s \<and> 0 \<le> n \<and> nat n \<le> length s \<and>
             block_at (dev w0) (dev_data m0) = Some d \<and> nat n \<le> length d)"
    using D l d h f nn by auto
  from cudaMemcpyHostToDevice_ok [OF this] obtain w2 where
    c: "cudaMemcpyHostToDevice (dev_data m0) (data m0) n w0 = Inr w2"
    and "last_error w2 = last_error w0" by blast
  with ok have "CE w2 = Inr w2" by (simp add: CE_ok)
  with e n0 c have "IntoDevMatrix m w = Inr (m0, w2)"
    by (simp add: IntoDevMatrix_def thn_Inr)
  then show ?thesis by blast
qed

lemma FromDevMatrix_total:
  assumes n: "Size m = Inr n" and D: "block_at (host w) (data m) = Some D" and l: "int (length D) = n"
    and S: "n \<noteq> 0 \<Longrightarrow> \<exists>S. block_at (dev w) (dev_data m) = Some S \<and> take (nat n) S = D"
    and ok: "last_error w = cudaSuccess"
  shows "\<exists>m1 w1. FromDevMatrix m w = Inr (m1, w1)"
proof -
  from D have nn: "data m \<noteq> nullptr" by (rule block_at_Some_nonnull)
  have "n = 0 \<or> (\<exists>s d. block_at (dev w) (dev_data m) = Some s \<and> 0 \<le> n \<and> nat n \<le> length s \<and>
             block_at (host w) (data m) = Some d \<and> nat n \<le> length d)"
  proof (cases "n = 0")
    case False
    from S [OF False] obtain s where s: "block_at (dev w) (dev_data m) = Some s"
      and t: "take (nat n) s = D" by blast
    from t l have "nat n \<le> length s" by auto
    with s D l show ?thesis by auto
  qed simp
  from cudaMemcpyDeviceToHost_ok [OF this] obtain w2 where
    c: "cudaMemcpyDeviceToHost (data m) (dev_data m) n w = Inr w2"
    and "last_error w2 = last_error w" by blast
  with ok have "CE w2 = Inr w2" by (simp add: CE_ok)
  with n nn c have "FromDevMatrix m w = Inr (m, w2)"
    by (simp add: FromDevMatrix_def thn_Inr)
  then show ?thesis by blast
qed

lemma load_Some:
  "block_at (host w) p = Some b \<Longrightarrow> 0 \<le> k \<Longrightarrow> nat k < length b \<Longrightarrow> load p k w = Inr (b ! nat k)"
  by (simp add: load_def)

lemma IsDeltaEqual_loop_eq:
  assumes "Size m = Inr n"
    and "block_at (host w) (data m) = Some a" and "block_at (host w) (data other) = Some b"
    and "int (length a) = n" and "int (length b) = n" and "0 \<le> i"
  shows "IsDeltaEqual_loop m other delta w i =
           Inr (\<forall>k. nat i \<le> k \<and> k < nat n \<longrightarrow> \<not> dgt (dabs (dsub (a ! k) (b ! k))) delta)"
  using assms
proof (induction m other delta w i rule: IsDeltaEqual_loop.induct)
  case (1 m other delta w i)
  show ?case
  proof (cases "i < n")
    case False
    then have "\<not> (\<exists>k. nat i \<le> k \<and> k < nat n)" by auto
    then have "(\<forall>k. nat i \<le> k \<and> k < nat n \<longrightarrow> \<not> dgt (dabs (dsub (a ! k) (b ! k))) delta) = True" by blast
    moreover have "IsDeltaEqual_loop m other delta w i = Inr True"
      using False "1.prems"(1) by (subst IsDeltaEqual_loop.simps) simp
    ultimately show ?thesis by simp
  next
    case True
    have la: "load (data m) i w = Inr (a ! nat i)"
      using "1.prems" True by (intro load_Some) auto
    have lb: "load (data other) i w = Inr (b ! nat i)"
      using "1.prems" True by (intro load_Some) auto
    have split: "(\<forall>k. nat i \<le> k \<and> k < nat n \<longrightarrow> \<not> dgt (dabs (dsub (a ! k) (b ! k))) delta) =
        (\<not> dgt (dabs (dsub (a ! nat i) (b ! nat i))) delta \<and>
         (\<forall>k. nat (i + 1) \<le> k \<and> k < nat n \<longrightarrow> \<not> dgt (dabs (dsub (a ! k) (b ! k))) delta))"
      (is "?L = (?H \<and> ?R)")
    proof
      assume l: ?L
      have "?H" using l True "1.prems"(6) by auto
      moreover have "?R" using l "1.prems"(6) by auto
      ultimately show "?H \<and> ?R" ..
    next
      assume hr: "?H \<and> ?R"
      show ?L
      proof (intro allI impI)
        fix k assume k: "nat i \<le> k \<and> k < nat n"
        show "\<not> dgt (dabs (dsub (a ! k) (b ! k))) delta"
        proof (cases "k = nat i")
          case True with hr show ?thesis by simp
        next
          case False
          with k "1.prems"(6) have "nat (i + 1) \<le> k \<and> k < nat n" by auto
          with hr show ?thesis by blast
        qed
      qed
    qed
    show ?thesis
    proof (cases "dgt (dabs (dsub (a ! nat i) (b ! nat i))) delta")
      case far: True
      then have "IsDeltaEqual_loop m other delta w i = Inr False"
        using True "1.prems"(1) la lb by (subst IsDeltaEqual_loop.simps) simp
      moreover from far have "\<not> ?H" by simp
      ultimately show ?thesis unfolding split by simp
    next
      case near: False
      have "IsDeltaEqual_loop m other delta w (i + 1) =
          Inr (\<forall>k. nat (i + 1) \<le> k \<and> k < nat n \<longrightarrow> \<not> dgt (dabs (dsub (a ! k) (b ! k))) delta)"
        using "1.prems" True near la lb
        by (intro "1.IH" [of n "a ! nat i" "b ! nat i"]) auto
      moreover have "IsDeltaEqual_loop m other delta w i = IsDeltaEqual_loop m other delta w (i + 1)"
        using True "1.prems"(1) la lb near by (subst IsDeltaEqual_loop.simps) simp
      moreover from near have "?H" by simp
      ultimately show ?thesis unfolding split by simp
    qed
  qed
qed

lemma IsDeltaEqual_eq:
  assumes "Size m = Inr n"
    and "block_at (host w) (data m) = Some a" and "block_at (host w) (data other) = Some b"
    and "int (length a) = n" and "int (length b) = n"
    and "cols m = cols other" and "rows m = rows other"
  shows "IsDeltaEqual m other delta w = Inr (\<forall>k < nat n. \<not> dgt (dabs (dsub (a ! k) (b ! k))) delta)"
proof -
  have "IsDeltaEqual m other delta w = IsDeltaEqual_loop m other delta w 0"
    using assms(6,7) by (simp add: IsDeltaEqual_def)
  also have "\<dots> = Inr (\<forall>k. nat 0 \<le> k \<and> k < nat n \<longrightarrow> \<not> dgt (dabs (dsub (a ! k) (b ! k))) delta)"
    using assms(1-5) by (intro IsDeltaEqual_loop_eq) auto
  finally show ?thesis by simp
qed

lemma idx_row_bound: "i < R \<Longrightarrow> j < C \<Longrightarrow> i * C + j < R * (C::nat)"
proof -
  assume i: "i < R" and j: "j < C"
  have "i * C + j < i * C + C" using j by simp
  also have "\<dots> = Suc i * C" by simp
  also have "\<dots> \<le> R * C" using i by (intro mult_le_mono1) simp
  finally show ?thesis .
qed

lemma idx_col_bound: "i < R \<Longrightarrow> j < C \<Longrightarrow> j * R + i < R * (C::nat)"
  using idx_row_bound [of j C i R] by (simp add: mult.commute)

lemma ck_nat: "n < 2 ^ 31 \<Longrightarrow> ck (int n) = Inr (int n)"
proof -
  assume "n < 2 ^ 31"
  then have "int n < 2 ^ 31" by (metis of_nat_less_iff of_nat_numeral of_nat_power)
  moreover have "- (2 ^ 31) \<le> int n" by (rule order_trans [of _ 0]) simp_all
  ultimately show ?thesis by (simp add: ck_def)
qed

lemma load_nat:
  "block_at (host w) p = Some b \<Longrightarrow> k < length b \<Longrightarrow> load p (int k) w = Inr (b ! k)"
  by (simp add: load_def)

lemma At_ok:
  assumes "block_at (host w) (data m) = Some D" and "length D = R * C"
    and "sint (cols m) = int C" and "R * C < 2 ^ 31" and "i < R" and "j < C"
  shows "At m (int i) (int j) w = Inr (D ! (i * C + j))"
proof -
  have b: "i * C + j < R * C" using assms(5,6) by (rule idx_row_bound)
  then have "i * C < 2 ^ 31" and "i * C + j < 2 ^ 31" using assms(4) by simp_all
  then have "ck (int (i * C)) = Inr (int (i * C))" and "ck (int (i * C + j)) = Inr (int (i * C + j))"
    by (simp_all only: ck_nat)
  moreover have "load (data m) (int (i * C + j)) w = Inr (D ! (i * C + j))"
    using assms(1,2) b by (intro load_nat) simp_all
  ultimately show ?thesis
    using assms(3) by (simp add: At_def thn_Inr)
qed

lemma IDX2C_ok:
  assumes "R * C < 2 ^ 31" and "i < R" and "j < C"
  shows "IDX2C (int i) (int j) (int R) = Inr (int (j * R + i))"
proof -
  have b: "j * R + i < R * C" using assms(2,3) by (rule idx_col_bound)
  then have "j * R < 2 ^ 31" and "j * R + i < 2 ^ 31" using assms(1) by simp_all
  then have "ck (int (j * R)) = Inr (int (j * R))" and "ck (int (j * R + i)) = Inr (int (j * R + i))"
    by (simp_all only: ck_nat)
  then show ?thesis by (simp add: IDX2C_def thn_Inr)
qed

lemma store_ok:
  assumes "block_at (host w) t = Some T" and "k < length T"
  shows "store t (int k) v w = Inr (w\<lparr>host := AList.update t (T[k := v]) (host w)\<rparr>)"
  using assms by (simp add: store_def)


lemma Transposed_cols_ok:
  assumes "block_at (host w) (data m) = Some D" and "block_at (host w) t = Some T"
    and "t \<noteq> data m" and "length D = R * C" and "length T = R * C"
    and "sint (rows m) = int R" and "sint (cols m) = int C" and "R * C < 2 ^ 31"
    and "i < R" and "j \<le> C"
  shows "\<exists>T'. Transposed_cols m t (int i) (int j) w = Inr (w\<lparr>host := AList.update t T' (host w)\<rparr>) \<and>
           length T' = R * C \<and>
           (\<forall>j'. j \<le> j' \<and> j' < C \<longrightarrow> T' ! (j' * R + i) = D ! (i * C + j')) \<and>
           (\<forall>k < R * C. (\<forall>j'. j \<le> j' \<and> j' < C \<longrightarrow> k \<noteq> j' * R + i) \<longrightarrow> T' ! k = T ! k)"
  using assms(1,2,5,10)
proof (induction "C - j" arbitrary: j T w)
  case 0
  then have "j = C" by simp
  then have "Transposed_cols m t (int i) (int j) w = Inr w"
    using assms(7) by (subst Transposed_cols.simps) simp
  moreover have "w\<lparr>host := AList.update t T (host w)\<rparr> = w"
    using "0.prems"(2) by (simp add: update_same)
  ultimately show ?case using "0.prems"(3) \<open>j = C\<close> by (intro exI [of _ T]) auto
next
  case (Suc d)
  then have j: "j < C" by simp
  let ?k = "j * R + i"
  let ?v = "D ! (i * C + j)"
  let ?T1 = "T[?k := ?v]"
  let ?w1 = "w\<lparr>host := AList.update t ?T1 (host w)\<rparr>"
  have kb: "?k < R * C" using assms(9) j by (rule idx_col_bound)
  have tn: "t \<noteq> nullptr" using Suc.prems(2) by (rule block_at_Some_nonnull)
  have a: "At m (int i) (int j) w = Inr ?v"
    using Suc.prems(1) assms(4,7,8,9) j by (rule At_ok)
  have b: "IDX2C (int i) (int j) (sint (rows m)) = Inr (int ?k)"
    using IDX2C_ok [OF assms(8,9) j] assms(6) by simp
  have c: "store t (int ?k) ?v w = Inr ?w1"
    using Suc.prems(2) kb Suc.prems(3) by (intro store_ok) simp_all
  have step: "Transposed_cols m t (int i) (int j) w = Transposed_cols m t (int i) (int (Suc j)) ?w1"
    using j assms(7) a b c by (subst Transposed_cols.simps) (simp add: add.commute)
  have D1: "block_at (host ?w1) (data m) = Some D"
    using Suc.prems(1) assms(3) by (simp add: block_at_update) (auto simp: block_at_def)
  have T1: "block_at (host ?w1) t = Some ?T1"
    using tn by (simp add: block_at_update)
  have "d = C - Suc j" using Suc.hyps(2) by simp
  from Suc.hyps(1) [OF this D1 T1] Suc.prems(3) j
  obtain T' where r: "Transposed_cols m t (int i) (int (Suc j)) ?w1 =
        Inr (?w1\<lparr>host := AList.update t T' (host ?w1)\<rparr>)"
    and l: "length T' = R * C"
    and p: "\<forall>j'. Suc j \<le> j' \<and> j' < C \<longrightarrow> T' ! (j' * R + i) = D ! (i * C + j')"
    and q: "\<forall>k < R * C. (\<forall>j'. Suc j \<le> j' \<and> j' < C \<longrightarrow> k \<noteq> j' * R + i) \<longrightarrow> T' ! k = ?T1 ! k"
    by auto
  have w': "?w1\<lparr>host := AList.update t T' (host ?w1)\<rparr> = w\<lparr>host := AList.update t T' (host w)\<rparr>"
    by simp
  have Rpos: "0 < R" using assms(9) by simp
  have inj: "j' * R + i \<noteq> ?k" if "j' \<noteq> j" for j'
    using that Rpos by simp
  have P: "T' ! (j' * R + i) = D ! (i * C + j')" if "j \<le> j' \<and> j' < C" for j'
  proof (cases "j' = j")
    case False
    with that p show ?thesis by simp
  next
    case True
    have "\<forall>j'. Suc j \<le> j' \<and> j' < C \<longrightarrow> ?k \<noteq> j' * R + i"
      using inj by (metis Suc_n_not_le_n)
    with q kb have "T' ! ?k = ?T1 ! ?k" by blast
    also have "\<dots> = ?v" using kb Suc.prems(3) by simp
    finally show ?thesis using True by simp
  qed
  have Q: "T' ! k = T ! k" if "k < R * C" and "\<forall>j'. j \<le> j' \<and> j' < C \<longrightarrow> k \<noteq> j' * R + i" for k
  proof -
    from that(2) have "\<forall>j'. Suc j \<le> j' \<and> j' < C \<longrightarrow> k \<noteq> j' * R + i" by auto
    with q that(1) have "T' ! k = ?T1 ! k" by blast
    moreover from that(2) j have "k \<noteq> ?k" by auto
    ultimately show ?thesis by simp
  qed
  show ?case
    using step r l P Q unfolding w' by (intro exI [of _ T']) auto
qed


lemma idx_col_inj:
  assumes "i < R" and "i' < R" and "j * R + i = j' * R + (i'::nat)"
  shows "i = i' \<and> j = j'"
proof -
  have "(j * R + i) mod R = i" and "(j' * R + i') mod R = i'" using assms(1,2) by simp_all
  with assms(3) have "i = i'" by simp
  with assms(1,3) show ?thesis by simp
qed

lemma Transposed_rows_ok:
  assumes "block_at (host w) (data m) = Some D" and "block_at (host w) t = Some T"
    and "t \<noteq> data m" and "length D = R * C" and "length T = R * C"
    and "sint (rows m) = int R" and "sint (cols m) = int C" and "R * C < 2 ^ 31"
    and "i \<le> R"
  shows "\<exists>T'. Transposed_rows m t (int i) w = Inr (w\<lparr>host := AList.update t T' (host w)\<rparr>) \<and>
           length T' = R * C \<and>
           (\<forall>i' j'. i \<le> i' \<and> i' < R \<and> j' < C \<longrightarrow> T' ! (j' * R + i') = D ! (i' * C + j')) \<and>
           (\<forall>k < R * C. (\<forall>i' j'. i \<le> i' \<and> i' < R \<and> j' < C \<longrightarrow> k \<noteq> j' * R + i') \<longrightarrow>
              T' ! k = T ! k)"
  using assms(1,2,5,9)
proof (induction "R - i" arbitrary: i T w)
  case 0
  then have "i = R" by simp
  then have "Transposed_rows m t (int i) w = Inr w"
    using assms(6) by (subst Transposed_rows.simps) simp
  moreover have "w\<lparr>host := AList.update t T (host w)\<rparr> = w"
    using "0.prems"(2) by (simp add: update_same)
  ultimately show ?case using "0.prems"(3) \<open>i = R\<close> by (intro exI [of _ T]) auto
next
  case (Suc d)
  then have i: "i < R" by simp
  have tn: "t \<noteq> nullptr" using Suc.prems(2) by (rule block_at_Some_nonnull)
  from Transposed_cols_ok [OF Suc.prems(1,2) assms(3,4) Suc.prems(3) assms(6,7,8) i, of 0]
  obtain T1 where c: "Transposed_cols m t (int i) 0 w = Inr (w\<lparr>host := AList.update t T1 (host w)\<rparr>)"
    and l1: "length T1 = R * C"
    and p1: "\<forall>j'. j' < C \<longrightarrow> T1 ! (j' * R + i) = D ! (i * C + j')"
    and q1: "\<forall>k < R * C. (\<forall>j'. j' < C \<longrightarrow> k \<noteq> j' * R + i) \<longrightarrow> T1 ! k = T ! k"
    by auto
  let ?w1 = "w\<lparr>host := AList.update t T1 (host w)\<rparr>"
  have step: "Transposed_rows m t (int i) w = Transposed_rows m t (int (Suc i)) ?w1"
    using i assms(6) c by (subst Transposed_rows.simps) (simp add: add.commute)
  have D1: "block_at (host ?w1) (data m) = Some D"
    using Suc.prems(1) assms(3) by (simp add: block_at_update) (auto simp: block_at_def)
  have T1: "block_at (host ?w1) t = Some T1"
    using tn by (simp add: block_at_update)
  have e: "d = R - Suc i" using Suc.hyps(2) by simp
  have le: "Suc i \<le> R" using i by simp
  from Suc.hyps(1) [OF e D1 T1 l1 le]
  obtain T' where r: "Transposed_rows m t (int (Suc i)) ?w1 =
        Inr (?w1\<lparr>host := AList.update t T' (host ?w1)\<rparr>)"
    and l: "length T' = R * C"
    and p: "\<forall>i' j'. Suc i \<le> i' \<and> i' < R \<and> j' < C \<longrightarrow> T' ! (j' * R + i') = D ! (i' * C + j')"
    and q: "\<forall>k < R * C. (\<forall>i' j'. Suc i \<le> i' \<and> i' < R \<and> j' < C \<longrightarrow> k \<noteq> j' * R + i') \<longrightarrow>
              T' ! k = T1 ! k"
    by blast
  have w': "?w1\<lparr>host := AList.update t T' (host ?w1)\<rparr> = w\<lparr>host := AList.update t T' (host w)\<rparr>"
    by simp
  have P: "T' ! (j' * R + i') = D ! (i' * C + j')" if "i \<le> i' \<and> i' < R \<and> j' < C" for i' j'
  proof (cases "i' = i")
    case False
    with that p show ?thesis by simp
  next
    case True
    have kb: "j' * R + i < R * C" using i that by (intro idx_col_bound) simp_all
    have "\<forall>i'' j''. Suc i \<le> i'' \<and> i'' < R \<and> j'' < C \<longrightarrow> j' * R + i \<noteq> j'' * R + i''"
    proof (intro allI impI notI)
      fix i'' j'' assume h: "Suc i \<le> i'' \<and> i'' < R \<and> j'' < C" and e: "j' * R + i = j'' * R + i''"
      from idx_col_inj [OF i _ e] h show False by simp
    qed
    with q kb have "T' ! (j' * R + i) = T1 ! (j' * R + i)" by blast
    also have "\<dots> = D ! (i * C + j')" using p1 that by simp
    finally show ?thesis using True by simp
  qed
  have Q: "T' ! k = T ! k"
    if "k < R * C" and "\<forall>i' j'. i \<le> i' \<and> i' < R \<and> j' < C \<longrightarrow> k \<noteq> j' * R + i'" for k
  proof -
    from that(2) have "\<forall>i' j'. Suc i \<le> i' \<and> i' < R \<and> j' < C \<longrightarrow> k \<noteq> j' * R + i'" by auto
    with q that(1) have "T' ! k = T1 ! k" by blast
    moreover from that(2) i have "\<forall>j'. j' < C \<longrightarrow> k \<noteq> j' * R + i" by auto
    with q1 that(1) have "T1 ! k = T ! k" by blast
    ultimately show ?thesis by simp
  qed
  show ?case
  proof (intro exI [of _ T'] conjI)
    show "Transposed_rows m t (int i) w = Inr (w\<lparr>host := AList.update t T' (host w)\<rparr>)"
      using step r w' by simp
    show "length T' = R * C" by (rule l)
    show "\<forall>i' j'. i \<le> i' \<and> i' < R \<and> j' < C \<longrightarrow> T' ! (j' * R + i') = D ! (i' * C + j')"
      using P by blast
    show "\<forall>k < R * C. (\<forall>i' j'. i \<le> i' \<and> i' < R \<and> j' < C \<longrightarrow> k \<noteq> j' * R + i') \<longrightarrow>
              T' ! k = T ! k"
      using Q by blast
  qed
qed

lemma colmajor_length: "length (colmajor R C D) = R * C"
  by (simp add: colmajor_def)

lemma colmajor_nth: "i < R \<Longrightarrow> j < C \<Longrightarrow> colmajor R C D ! (j * R + i) = D ! (i * C + j)"
proof -
  assume i: "i < R" and j: "j < C"
  then have "j * R + i < R * C" by (rule idx_col_bound)
  then show ?thesis using i by (simp add: colmajor_def)
qed

lemma colmajor_unique:
  assumes "length T = R * C"
    and "\<forall>i j. i < R \<and> j < C \<longrightarrow> T ! (j * R + i) = D ! (i * C + j)"
  shows "T = colmajor R C D"
proof (rule nth_equalityI)
  show "length T = length (colmajor R C D)" using assms(1) by (simp add: colmajor_length)
next
  fix k assume "k < length T"
  then have k: "k < R * C" using assms(1) by simp
  then have "0 < R" by (cases R) simp_all
  then have a: "k mod R < R" by simp
  have b: "k div R < C" using k by (simp add: less_mult_imp_div_less mult.commute)
  have e: "k div R * R + k mod R = k" by simp
  from assms(2) a b have "T ! (k div R * R + k mod R) = D ! (k mod R * C + k div R)" by blast
  moreover from colmajor_nth [OF a b, of D]
  have "colmajor R C D ! (k div R * R + k mod R) = D ! (k mod R * C + k div R)" .
  ultimately show "T ! k = colmajor R C D ! k" unfolding e by simp
qed


lemma Size_nat:
  assumes "sint (rows m) = int R" and "sint (cols m) = int C" and "R * C < 2 ^ 31"
  shows "Size m = Inr (int (R * C))"
  using ck_nat [OF assms(3)] assms(1,2) by (simp add: Size_def)

lemma malloc_ok:
  "n \<le> host_cap w \<Longrightarrow>
     malloc (int n) w = (fresh (host w), w\<lparr>host := (fresh (host w), replicate n 0) # host w\<rparr>)"
  by (simp add: malloc_def alloc_def)

lemma malloc_fail: "\<not> n \<le> host_cap w \<Longrightarrow> malloc (int n) w = (nullptr, w)"
  by (simp add: malloc_def alloc_def)

lemma Transposed_ok:
  assumes D: "block_at (host w) (data m) = Some D" and lD: "length D = R * C"
    and r: "sint (rows m) = int R" and c: "sint (cols m) = int C" and fits: "R * C < 2 ^ 31"
    and cap: "R * C \<le> host_cap w"
  shows "Transposed m w =
           Inr (fresh (host w), w\<lparr>host := (fresh (host w), colmajor R C D) # host w\<rparr>)"
proof -
  let ?t = "fresh (host w)"
  let ?w1 = "w\<lparr>host := (?t, replicate (R * C) 0) # host w\<rparr>"
  have n: "Size m = Inr (int (R * C))" using r c fits by (rule Size_nat)
  have ma: "malloc (int (R * C)) w = (?t, ?w1)" using cap by (rule malloc_ok)
  have ne: "?t \<noteq> data m" using D block_at_fresh [of "host w"] by auto
  have dn: "data m \<noteq> nullptr" using D by (rule block_at_Some_nonnull)
  have D1: "block_at (host ?w1) (data m) = Some D"
    using D ne dn by (simp add: block_at_Cons)
  have T1: "block_at (host ?w1) ?t = Some (replicate (R * C) 0)"
    by (simp add: block_at_Cons fresh_nonnull)
  have l1: "length (replicate (R * C) (0::double)) = R * C" by simp
  have "\<exists>T'. Transposed_rows m ?t (int 0) ?w1 = Inr (?w1\<lparr>host := AList.update ?t T' (host ?w1)\<rparr>) \<and>
           length T' = R * C \<and>
           (\<forall>i' j'. 0 \<le> i' \<and> i' < R \<and> j' < C \<longrightarrow> T' ! (j' * R + i') = D ! (i' * C + j')) \<and>
           (\<forall>k < R * C. (\<forall>i' j'. 0 \<le> i' \<and> i' < R \<and> j' < C \<longrightarrow> k \<noteq> j' * R + i') \<longrightarrow>
              T' ! k = replicate (R * C) 0 ! k)"
    using D1 T1 ne lD l1 r c fits by (rule Transposed_rows_ok) simp
  then obtain T' where t0: "Transposed_rows m ?t (int 0) ?w1 =
        Inr (?w1\<lparr>host := AList.update ?t T' (host ?w1)\<rparr>)"
    and l: "length T' = R * C"
    and p0: "\<forall>i' j'. 0 \<le> i' \<and> i' < R \<and> j' < C \<longrightarrow> T' ! (j' * R + i') = D ! (i' * C + j')"
    by blast
  from t0 have t: "Transposed_rows m ?t 0 ?w1 = Inr (?w1\<lparr>host := AList.update ?t T' (host ?w1)\<rparr>)"
    by simp
  from p0 have p: "\<forall>i' j'. i' < R \<and> j' < C \<longrightarrow> T' ! (j' * R + i') = D ! (i' * C + j')"
    by simp
  from l p have "T' = colmajor R C D" by (rule colmajor_unique)
  moreover have "?w1\<lparr>host := AList.update ?t T' (host ?w1)\<rparr> = w\<lparr>host := (?t, T') # host w\<rparr>"
    by simp
  ultimately have "Transposed_rows m ?t 0 ?w1 = Inr (w\<lparr>host := (?t, colmajor R C D) # host w\<rparr>)"
    using t by simp
  with n ma show ?thesis by (simp add: Transposed_def thn_Inr)
qed

lemma Transposed_fail:
  assumes D: "block_at (host w) (data m) = Some D" and lD: "length D = R * C"
    and r: "sint (rows m) = int R" and c: "sint (cols m) = int C" and fits: "R * C < 2 ^ 31"
    and cap: "\<not> R * C \<le> host_cap w"
  shows "Transposed m w = Inl HostFault"
proof -
  have n: "Size m = Inr (int (R * C))" using r c fits by (rule Size_nat)
  have ma: "malloc (int (R * C)) w = (nullptr, w)" using cap by (rule malloc_fail)
  have "R * C \<noteq> 0" using cap by (intro notI) simp
  then have R: "0 < R" and C: "0 < C" by simp_all
  have a: "At m (int 0) (int 0) w = Inr (D ! (0 * C + 0))"
    using D lD c fits R C by (rule At_ok)
  have b: "IDX2C (int 0) (int 0) (int R) = Inr (int (0 * R + 0))"
    using fits R C by (rule IDX2C_ok)
  have s: "store nullptr 0 (D ! 0) w = Inl HostFault"
    by (simp add: store_def block_at_nullptr)
  have "Transposed_cols m nullptr 0 0 w = Inl HostFault"
    using C c r a b s by (subst Transposed_cols.simps) simp
  then have "Transposed_rows m nullptr 0 w = Inl HostFault"
    using R r by (subst Transposed_rows.simps) simp
  with n ma show ?thesis by (simp add: Transposed_def thn_Inr thn_Inl)
qed

lemma Transposed_Inr:
  assumes D: "block_at (host w) (data m) = Some D" and lD: "length D = R * C"
    and r: "sint (rows m) = int R" and c: "sint (cols m) = int C" and fits: "R * C < 2 ^ 31"
    and res: "Transposed m w = Inr (t, w')"
  shows "t = fresh (host w)" and "w' = w\<lparr>host := (fresh (host w), colmajor R C D) # host w\<rparr>"
    and "R * C \<le> host_cap w"
proof -
  show cap: "R * C \<le> host_cap w"
  proof (rule ccontr)
    assume "\<not> R * C \<le> host_cap w"
    from Transposed_fail [OF D lD r c fits this] res show False by simp
  qed
  from Transposed_ok [OF D lD r c fits cap] res
  show "t = fresh (host w)" and "w' = w\<lparr>host := (fresh (host w), colmajor R C D) # host w\<rparr>"
    by simp_all
qed

lemma free_Inr:
  assumes "free p w = Inr w'"
  shows "w' = (if p = nullptr then w else w\<lparr>host := AList.delete p (host w)\<rparr>)"
  using assms by (simp add: free_def split: if_splits)

lemma free_ok:
  "block_at (host w) p = Some b \<Longrightarrow> free p w = Inr (w\<lparr>host := AList.delete p (host w)\<rparr>)"
  by (auto simp: free_def dest: block_at_Some_nonnull)

lemma populated_dims:
  assumes "populated m w" and "0 \<le> sint (rows m)" and "0 \<le> sint (cols m)"
  obtains R C D where "sint (rows m) = int R" and "sint (cols m) = int C"
    and "R * C < 2 ^ 31" and "Size m = Inr (int (R * C))"
    and "block_at (host w) (data m) = Some D" and "length D = R * C"
proof -
  from populatedD [OF assms(1)] obtain n D where n: "Size m = Inr n"
    and D: "block_at (host w) (data m) = Some D" and l: "int (length D) = n" by blast
  let ?R = "nat (sint (rows m))" and ?C = "nat (sint (cols m))"
  have r: "sint (rows m) = int ?R" and c: "sint (cols m) = int ?C" using assms(2,3) by simp_all
  from n have p: "sint (rows m) * sint (cols m) = n" and b: "n < 2 ^ 31"
    by (auto simp: Size_def ck_def split: if_splits)
  from p r c have e: "int (?R * ?C) = n" by (metis of_nat_mult)
  with b have "int (?R * ?C) < 2 ^ 31" by simp
  then have f: "?R * ?C < 2 ^ 31" by (metis of_nat_less_iff of_nat_numeral of_nat_power)
  from e l have "length D = ?R * ?C" by (metis of_nat_eq_iff)
  with r c f n e D show ?thesis by (intro that [of ?R ?C D]) simp_all
qed

lemma IntoDevMatrix_ColMajor_Inr:
  assumes res: "IntoDevMatrix_ColMajor m w = Inr (m1, w1)"
    and D: "block_at (host w) (data m) = Some D" and lD: "length D = R * C"
    and r: "sint (rows m) = int R" and c: "sint (cols m) = int C" and fits: "R * C < 2 ^ 31"
  shows "data m1 = data m" and "rows m1 = rows m" and "cols m1 = cols m"
    and "host w1 = host w" and "host_cap w1 = host_cap w" and "last_error w1 = cudaSuccess"
    and "R * C \<le> host_cap w"
    and "R * C \<noteq> 0 \<Longrightarrow>
           \<exists>S. block_at (dev w1) (dev_data m1) = Some S \<and> take (R * C) S = colmajor R C D"
proof -
  from res obtain v where
    "(if dev_data m = nullptr then AllocDevice m w else Inr (m, w)) = Inr v"
    and "(case v of (m0, w0) \<Rightarrow>
           thn (Transposed m0 w0) (\<lambda>(t, w2).
           thn (Size m0) (\<lambda>n.
           thn (cudaMemcpyHostToDevice (dev_data m0) t n w2) (\<lambda>w3.
           thn (CE w3) (\<lambda>w4.
           thn (free t w4) (\<lambda>w5. Inr (m0, w5))))))) = Inr (m1, w1)"
    unfolding IntoDevMatrix_ColMajor_def by (rule thn_InrE)
  then obtain m0 w0 where
    e: "(if dev_data m = nullptr then AllocDevice m w else Inr (m, w)) = Inr (m0, w0)"
    and "thn (Transposed m0 w0) (\<lambda>(t, w2).
           thn (Size m0) (\<lambda>n.
           thn (cudaMemcpyHostToDevice (dev_data m0) t n w2) (\<lambda>w3.
           thn (CE w3) (\<lambda>w4.
           thn (free t w4) (\<lambda>w5. Inr (m0, w5)))))) = Inr (m1, w1)"
    by (cases v) simp
  then obtain tv where "Transposed m0 w0 = Inr tv"
    and "(case tv of (t, w2) \<Rightarrow>
           thn (Size m0) (\<lambda>n.
           thn (cudaMemcpyHostToDevice (dev_data m0) t n w2) (\<lambda>w3.
           thn (CE w3) (\<lambda>w4.
           thn (free t w4) (\<lambda>w5. Inr (m0, w5)))))) = Inr (m1, w1)"
    by (elim conjE thn_InrE [where r = "Transposed m0 w0"]) blast
  then obtain t w2 where tr: "Transposed m0 w0 = Inr (t, w2)"
    and rest: "thn (Size m0) (\<lambda>n.
           thn (cudaMemcpyHostToDevice (dev_data m0) t n w2) (\<lambda>w3.
           thn (CE w3) (\<lambda>w4.
           thn (free t w4) (\<lambda>w5. Inr (m0, w5))))) = Inr (m1, w1)"
    by (cases tv) simp
  note f = ensure_dev_Inr(1-5) [OF e]
  have D0: "block_at (host w0) (data m0) = Some D" using D f by simp
  have r0: "sint (rows m0) = int R" and c0: "sint (cols m0) = int C" using r c f by simp_all
  note g = Transposed_Inr [OF D0 lD r0 c0 fits tr]
  let ?X = "colmajor R C D"
  have hw2: "host w2 = (t, ?X) # host w0" and dw2: "dev w2 = dev w0" using g(1,2) by simp_all
  have n0: "Size m0 = Inr (int (R * C))" using r0 c0 fits by (rule Size_nat)
  with rest have "thn (cudaMemcpyHostToDevice (dev_data m0) t (int (R * C)) w2) (\<lambda>w3.
           thn (CE w3) (\<lambda>w4.
           thn (free t w4) (\<lambda>w5. Inr (m0, w5)))) = Inr (m1, w1)"
    by (simp add: thn_Inr)
  then obtain w3 where cp: "cudaMemcpyHostToDevice (dev_data m0) t (int (R * C)) w2 = Inr w3"
    and rest2: "thn (CE w3) (\<lambda>w4. thn (free t w4) (\<lambda>w5. Inr (m0, w5))) = Inr (m1, w1)"
    by (rule thn_InrE)
  from rest2 obtain w4 where ce: "CE w3 = Inr w4"
    and rest3: "thn (free t w4) (\<lambda>w5. Inr (m0, w5)) = Inr (m1, w1)"
    by (rule thn_InrE)
  from CE_Inr [OF ce] have w4: "w4 = w3" and ok: "last_error w3 = cudaSuccess" by simp_all
  from rest3 obtain w5 where fr: "free t w4 = Inr w5"
    and "Inr (m0, w5) = (Inr (m1, w1) :: error + Matrix \<times> world)"
    by (rule thn_InrE)
  then have m1: "m1 = m0" and w1: "w1 = w5" by simp_all
  note h = cudaMemcpyHostToDevice_Inr [OF cp ok]
  have tf: "t = fresh (host w0)" by (rule g(1))
  have tn: "t \<noteq> nullptr" unfolding tf by (rule fresh_nonnull)
  from free_Inr [OF fr] tn w4 have w5: "w5 = w3\<lparr>host := AList.delete t (host w3)\<rparr>" by simp
  have "host w5 = AList.delete t ((t, ?X) # host w0)" using w5 h(1) hw2 by simp
  also have "\<dots> = AList.delete t (host w0)" by simp
  also have "\<dots> = host w0" unfolding tf by (rule delete_fresh)
  finally have hw5: "host w5 = host w0" .
  show "data m1 = data m" and "rows m1 = rows m" and "cols m1 = cols m"
    using m1 f by simp_all
  show "host w1 = host w" using w1 hw5 f by simp
  show "host_cap w1 = host_cap w" using w1 w5 h(2) g(2) f by simp
  show "last_error w1 = cudaSuccess" using w1 w5 ok by simp
  show "R * C \<le> host_cap w" using g(3) f by simp
  show "\<exists>S. block_at (dev w1) (dev_data m1) = Some S \<and> take (R * C) S = colmajor R C D"
    if "R * C \<noteq> 0"
  proof -
    from that have "int (R * C) \<noteq> 0" by simp
    from h(4) [OF this] obtain s d where
      s: "block_at (host w2) t = Some s" and "R * C \<le> length d"
      and b: "block_at (dev w3) (dev_data m0) = Some (take (R * C) s @ drop (R * C) d)"
      unfolding nat_int by blast
    from s hw2 tn have "s = ?X" by (simp add: block_at_Cons)
    then have "take (R * C) (take (R * C) s @ drop (R * C) d) = ?X"
      by (simp add: colmajor_length)
    moreover have "dev w1 = dev w3" using w1 w5 by simp
    ultimately show ?thesis using b m1 by simp
  qed
qed


lemma FromDevMatrix_ColMajor_Inr:
  assumes res: "FromDevMatrix_ColMajor m w = Inr (m1, w1)"
    and D: "block_at (host w) (data m) = Some D" and lD: "length D = R * C"
    and r: "sint (rows m) = int R" and c: "sint (cols m) = int C" and fits: "R * C < 2 ^ 31"
    and S: "R * C \<noteq> 0 \<Longrightarrow> \<exists>S. block_at (dev w) (dev_data m) = Some S \<and> take (R * C) S = X"
    and X0: "R * C = 0 \<Longrightarrow> X = D"
  shows "block_at (host w1) (data m1) = Some (colmajor R C X)"
    and "rows m1 = rows m" and "cols m1 = cols m" and "dev_data m1 = dev_data m"
    and "dev w1 = dev w"
proof -
  from D have dn: "data m \<noteq> nullptr" by (rule block_at_Some_nonnull)
  have n: "Size m = Inr (int (R * C))" using r c fits by (rule Size_nat)
  from res dn n have "thn (cudaMemcpyDeviceToHost (data m) (dev_data m) (int (R * C)) w) (\<lambda>w2.
      thn (CE w2) (\<lambda>w3.
      thn (Transposed m w3) (\<lambda>(fixed, w4).
      thn (free (data m) w4) (\<lambda>w5. Inr (m\<lparr>data := fixed\<rparr>, w5))))) = Inr (m1, w1)"
    by (simp add: FromDevMatrix_ColMajor_def thn_Inr)
  then obtain w2 where cp: "cudaMemcpyDeviceToHost (data m) (dev_data m) (int (R * C)) w = Inr w2"
    and rest: "thn (CE w2) (\<lambda>w3.
      thn (Transposed m w3) (\<lambda>(fixed, w4).
      thn (free (data m) w4) (\<lambda>w5. Inr (m\<lparr>data := fixed\<rparr>, w5)))) = Inr (m1, w1)"
    by (rule thn_InrE)
  from rest obtain w3 where ce: "CE w2 = Inr w3"
    and rest2: "thn (Transposed m w3) (\<lambda>(fixed, w4).
      thn (free (data m) w4) (\<lambda>w5. Inr (m\<lparr>data := fixed\<rparr>, w5))) = Inr (m1, w1)"
    by (rule thn_InrE)
  from CE_Inr [OF ce] have w3: "w3 = w2" and ok: "last_error w2 = cudaSuccess" by simp_all
  from rest2 obtain tv where "Transposed m w3 = Inr tv"
    and "(case tv of (fixed, w4) \<Rightarrow>
      thn (free (data m) w4) (\<lambda>w5. Inr (m\<lparr>data := fixed\<rparr>, w5))) = Inr (m1, w1)"
    by (rule thn_InrE)
  then obtain fixed w4 where tr: "Transposed m w2 = Inr (fixed, w4)"
    and rest3: "thn (free (data m) w4) (\<lambda>w5. Inr (m\<lparr>data := fixed\<rparr>, w5)) = Inr (m1, w1)"
    using w3 by (cases tv) simp
  from rest3 obtain w5 where fr: "free (data m) w4 = Inr w5"
    and "Inr (m\<lparr>data := fixed\<rparr>, w5) = (Inr (m1, w1) :: error + Matrix \<times> world)"
    by (rule thn_InrE)
  then have m1: "m1 = m\<lparr>data := fixed\<rparr>" and w1: "w1 = w5" by simp_all
  note h = cudaMemcpyDeviceToHost_Inr [OF cp ok]
  have X: "block_at (host w2) (data m) = Some X \<and> length X = R * C"
  proof (cases "R * C = 0")
    case True
    then have "int (R * C) = 0" by simp
    from h(3) [OF this] D lD X0 [OF True] show ?thesis by simp
  next
    case False
    then have "int (R * C) \<noteq> 0" by simp
    from h(4) [OF this] obtain s d where s: "block_at (dev w) (dev_data m) = Some s"
      and ls: "R * C \<le> length s" and d: "block_at (host w) (data m) = Some d"
      and hw: "host w2 = AList.update (data m) (take (R * C) s @ drop (R * C) d) (host w)"
      unfolding nat_int by blast
    from S [OF False] s have t: "take (R * C) s = X" by auto
    from d D lD have "drop (R * C) d = []" by simp
    with t hw have "host w2 = AList.update (data m) X (host w)" by simp
    then have "block_at (host w2) (data m) = Some X" using dn by (simp add: block_at_update)
    moreover from t ls have "length X = R * C" by auto
    ultimately show ?thesis by simp
  qed
  then have X2: "block_at (host w2) (data m) = Some X" and lX: "length X = R * C" by simp_all
  note g = Transposed_Inr [OF X2 lX r c fits tr]
  have fx: "fixed = fresh (host w2)" by (rule g(1))
  have fn: "fixed \<noteq> nullptr" unfolding fx by (rule fresh_nonnull)
  have ne: "fixed \<noteq> data m" using X2 block_at_fresh [of "host w2"] unfolding fx by auto
  from free_Inr [OF fr] dn have w5: "w5 = w4\<lparr>host := AList.delete (data m) (host w4)\<rparr>" by simp
  have "block_at (host w5) fixed = block_at (host w4) fixed"
    using w5 ne by (simp add: block_at_delete)
  also have "\<dots> = Some (colmajor R C X)" using g(1,2) fn by (simp add: block_at_Cons)
  finally show "block_at (host w1) (data m1) = Some (colmajor R C X)" using w1 m1 by simp
  show "rows m1 = rows m" and "cols m1 = cols m" and "dev_data m1 = dev_data m"
    using m1 by simp_all
  show "dev w1 = dev w" using w1 w5 g(2) h(1) by simp
qed

lemma IntoDevMatrix_ColMajor_total:
  assumes D: "block_at (host w) (data m) = Some D" and lD: "length D = R * C"
    and r: "sint (rows m) = int R" and c: "sint (cols m) = int C" and fits: "R * C < 2 ^ 31"
    and cap: "R * C \<le> host_cap w" and ready: "device_ready m w"
  shows "\<exists>m1 w1. IntoDevMatrix_ColMajor m w = Inr (m1, w1)"
proof -
  have n: "Size m = Inr (int (R * C))" using r c fits by (rule Size_nat)
  have nn: "0 \<le> int (R * C)" by simp
  from ensure_dev_ok [OF ready n nn] obtain m0 w0 d where
    e: "(if dev_data m = nullptr then AllocDevice m w else Inr (m, w)) = Inr (m0, w0)"
    and ok: "last_error w0 = cudaSuccess" and h: "host w0 = host w"
    and hc: "host_cap w0 = host_cap w"
    and f: "data m0 = data m" "rows m0 = rows m" "cols m0 = cols m"
    and d: "int (R * C) \<noteq> 0 \<longrightarrow>
        block_at (dev w0) (dev_data m0) = Some d \<and> nat (int (R * C)) \<le> length d"
    by blast
  have D0: "block_at (host w0) (data m0) = Some D" using D f h by simp
  have r0: "sint (rows m0) = int R" and c0: "sint (cols m0) = int C" using r c f by simp_all
  have cap0: "R * C \<le> host_cap w0" using cap hc by simp
  let ?t = "fresh (host w0)"
  let ?X = "colmajor R C D"
  let ?w2 = "w0\<lparr>host := (?t, ?X) # host w0\<rparr>"
  have tr: "Transposed m0 w0 = Inr (?t, ?w2)"
    using D0 lD r0 c0 fits cap0 by (rule Transposed_ok)
  have n0: "Size m0 = Inr (int (R * C))" using r0 c0 fits by (rule Size_nat)
  have tb: "block_at (host ?w2) ?t = Some ?X" by (simp add: block_at_Cons fresh_nonnull)
  have "int (R * C) = 0 \<or>
      (\<exists>s d. block_at (host ?w2) ?t = Some s \<and> 0 \<le> int (R * C) \<and> nat (int (R * C)) \<le> length s \<and>
         block_at (dev ?w2) (dev_data m0) = Some d \<and> nat (int (R * C)) \<le> length d)"
  proof (cases "R * C = 0")
    case False
    with d have "block_at (dev ?w2) (dev_data m0) = Some d \<and> nat (int (R * C)) \<le> length d"
      by simp
    moreover have "nat (int (R * C)) \<le> length ?X" unfolding nat_int by (simp add: colmajor_length)
    ultimately show ?thesis using tb nn by blast
  qed simp
  from cudaMemcpyHostToDevice_ok [OF this] obtain w3 where
    cp: "cudaMemcpyHostToDevice (dev_data m0) ?t (int (R * C)) ?w2 = Inr w3"
    and le: "last_error w3 = last_error ?w2" by blast
  from le ok have ok3: "last_error w3 = cudaSuccess" by simp
  then have ce: "CE w3 = Inr w3" by (rule CE_ok)
  from cudaMemcpyHostToDevice_Inr(1) [OF cp ok3] tb
  have "block_at (host w3) ?t = Some ?X" by simp
  then have fr: "free ?t w3 = Inr (w3\<lparr>host := AList.delete ?t (host w3)\<rparr>)" by (rule free_ok)
  from e tr n0 cp ce fr
  have "IntoDevMatrix_ColMajor m w = Inr (m0, w3\<lparr>host := AList.delete ?t (host w3)\<rparr>)"
    by (simp add: IntoDevMatrix_ColMajor_def thn_Inr)
  then show ?thesis by blast
qed

lemma FromDevMatrix_ColMajor_total:
  assumes D: "block_at (host w) (data m) = Some D" and lD: "length D = R * C"
    and r: "sint (rows m) = int R" and c: "sint (cols m) = int C" and fits: "R * C < 2 ^ 31"
    and cap: "R * C \<le> host_cap w" and ok: "last_error w = cudaSuccess"
    and S: "R * C \<noteq> 0 \<Longrightarrow> \<exists>S. block_at (dev w) (dev_data m) = Some S \<and> R * C \<le> length S"
  shows "\<exists>m1 w1. FromDevMatrix_ColMajor m w = Inr (m1, w1)"
proof -
  from D have dn: "data m \<noteq> nullptr" by (rule block_at_Some_nonnull)
  have n: "Size m = Inr (int (R * C))" using r c fits by (rule Size_nat)
  have "int (R * C) = 0 \<or>
      (\<exists>s d. block_at (dev w) (dev_data m) = Some s \<and> 0 \<le> int (R * C) \<and> nat (int (R * C)) \<le> length s \<and>
         block_at (host w) (data m) = Some d \<and> nat (int (R * C)) \<le> length d)"
  proof (cases "R * C = 0")
    case False
    from S [OF False] obtain s where "block_at (dev w) (dev_data m) = Some s"
      and "nat (int (R * C)) \<le> length s" unfolding nat_int by blast
    moreover have "nat (int (R * C)) \<le> length D" unfolding nat_int using lD by simp
    moreover have "0 \<le> int (R * C)" by simp
    ultimately show ?thesis using D by blast
  qed simp
  from cudaMemcpyDeviceToHost_ok [OF this] obtain w2 where
    cp: "cudaMemcpyDeviceToHost (data m) (dev_data m) (int (R * C)) w = Inr w2"
    and le: "last_error w2 = last_error w" by blast
  from le ok have ok2: "last_error w2 = cudaSuccess" by simp
  then have ce: "CE w2 = Inr w2" by (rule CE_ok)
  note h = cudaMemcpyDeviceToHost_Inr [OF cp ok2]
  have "\<exists>X. block_at (host w2) (data m) = Some X \<and> length X = R * C"
  proof (cases "R * C = 0")
    case True
    then have "int (R * C) = 0" by simp
    from h(3) [OF this] D lD show ?thesis by simp
  next
    case False
    then have "int (R * C) \<noteq> 0" by simp
    from h(4) [OF this] obtain s d where ls: "R * C \<le> length s"
      and d: "block_at (host w) (data m) = Some d"
      and hw: "host w2 = AList.update (data m) (take (R * C) s @ drop (R * C) d) (host w)"
      unfolding nat_int by blast
    from d D lD have "length (take (R * C) s @ drop (R * C) d) = R * C" using ls by simp
    moreover from hw dn
    have "block_at (host w2) (data m) = Some (take (R * C) s @ drop (R * C) d)"
      by (simp add: block_at_update)
    ultimately show ?thesis by blast
  qed
  then obtain X where X2: "block_at (host w2) (data m) = Some X" and lX: "length X = R * C"
    by blast
  have cap2: "R * C \<le> host_cap w2" using cap h(2) by simp
  let ?t = "fresh (host w2)"
  let ?w4 = "w2\<lparr>host := (?t, colmajor R C X) # host w2\<rparr>"
  have tr: "Transposed m w2 = Inr (?t, ?w4)"
    using X2 lX r c fits cap2 by (rule Transposed_ok)
  have ne: "?t \<noteq> data m" using X2 block_at_fresh [of "host w2"] by auto
  have "block_at (host ?w4) (data m) = Some X" using X2 ne dn by (simp add: block_at_Cons)
  then have fr: "free (data m) ?w4 = Inr (?w4\<lparr>host := AList.delete (data m) (host ?w4)\<rparr>)"
    by (rule free_ok)
  from dn n cp ce tr fr
  have "FromDevMatrix_ColMajor m w =
      Inr (m\<lparr>data := ?t\<rparr>, ?w4\<lparr>host := AList.delete (data m) (host ?w4)\<rparr>)"
    by (simp add: FromDevMatrix_ColMajor_def thn_Inr)
  then show ?thesis by blast
qed

lemma colmajor_empty: "R * C = 0 \<Longrightarrow> colmajor R C D = []"
  by (simp add: colmajor_def)

lemma colmajor_square:
  assumes "length D = R * R"
  shows "colmajor R R (colmajor R R D) = D"
proof (rule nth_equalityI)
  show "length (colmajor R R (colmajor R R D)) = length D"
    using assms by (simp add: colmajor_length)
next
  fix k assume "k < length (colmajor R R (colmajor R R D))"
  then have k: "k < R * R" by (simp add: colmajor_length)
  then have "0 < R" by (cases R) simp_all
  then have a: "k mod R < R" by simp
  have b: "k div R < R" using k by (simp add: less_mult_imp_div_less)
  have "colmajor R R (colmajor R R D) ! (k div R * R + k mod R) =
      colmajor R R D ! (k mod R * R + k div R)"
    using a b by (rule colmajor_nth)
  also have "\<dots> = D ! (k div R * R + k mod R)"
    using b a by (rule colmajor_nth)
  finally show "colmajor R R (colmajor R R D) ! k = D ! k" by simp
qed

lemma cell_nat: "block_at h p = Some b \<Longrightarrow> k < length b \<Longrightarrow> cell h p (int k) = Some (b ! k)"
  by (simp add: cell_def)

lemma host_can_transposeD:
  "host_can_transpose m w \<Longrightarrow> Size m = Inr (int n) \<Longrightarrow> n \<le> host_cap w"
  by (simp add: host_can_transpose_def)

lemma colmajor_roundtrip_Inr:
  assumes D: "block_at (host w) (data m) = Some D" and lD: "length D = R * C"
    and r: "sint (rows m) = int R" and c: "sint (cols m) = int C" and fits: "R * C < 2 ^ 31"
    and a: "IntoDevMatrix_ColMajor m w = Inr (m1, w1)"
    and b: "FromDevMatrix_ColMajor m1 w1 = Inr (m2, w2)"
  shows "block_at (host w2) (data m2) = Some (colmajor R C (colmajor R C D))"
    and "rows m2 = rows m" and "cols m2 = cols m"
proof -
  note f = IntoDevMatrix_ColMajor_Inr [OF a D lD r c fits]
  have D1: "block_at (host w1) (data m1) = Some D" using D f(1,4) by simp
  have r1: "sint (rows m1) = int R" and c1: "sint (cols m1) = int C" using r c f(2,3) by simp_all
  have X0: "colmajor R C D = D" if "R * C = 0"
  proof -
    from that lD have "length D = 0" by (simp only:)
    then have "D = []" by simp
    with that show ?thesis by (simp only: colmajor_empty)
  qed
  note g = FromDevMatrix_ColMajor_Inr [OF b D1 lD r1 c1 fits f(8) X0]
  show "block_at (host w2) (data m2) = Some (colmajor R C (colmajor R C D))" by (rule g(1))
  show "rows m2 = rows m" and "cols m2 = cols m" using g(2,3) f(2,3) by simp_all
qed

lemma colmajor_roundtrip_total:
  assumes D: "block_at (host w) (data m) = Some D" and lD: "length D = R * C"
    and r: "sint (rows m) = int R" and c: "sint (cols m) = int C" and fits: "R * C < 2 ^ 31"
    and cap: "R * C \<le> host_cap w" and ready: "device_ready m w"
  shows "\<exists>m1 w1 m2 w2. IntoDevMatrix_ColMajor m w = Inr (m1, w1) \<and>
           FromDevMatrix_ColMajor m1 w1 = Inr (m2, w2)"
proof -
  from IntoDevMatrix_ColMajor_total [OF D lD r c fits cap ready]
  obtain m1 w1 where a: "IntoDevMatrix_ColMajor m w = Inr (m1, w1)" by blast
  note f = IntoDevMatrix_ColMajor_Inr [OF a D lD r c fits]
  have D1: "block_at (host w1) (data m1) = Some D" using D f(1,4) by simp
  have r1: "sint (rows m1) = int R" and c1: "sint (cols m1) = int C" using r c f(2,3) by simp_all
  have cap1: "R * C \<le> host_cap w1" using cap f(5) by simp
  have S: "\<exists>S. block_at (dev w1) (dev_data m1) = Some S \<and> R * C \<le> length S" if "R * C \<noteq> 0"
  proof -
    from f(8) [OF that] obtain S where s: "block_at (dev w1) (dev_data m1) = Some S"
      and t: "take (R * C) S = colmajor R C D" by blast
    from t have "length (take (R * C) S) = R * C" by (simp add: colmajor_length)
    then have "R * C \<le> length S" by simp
    with s show ?thesis by blast
  qed
  from FromDevMatrix_ColMajor_total [OF D1 lD r1 c1 fits cap1 f(6) S] a
  show ?thesis by blast
qed


lemma ex_rect_facts:
  "block_at (host ex_world) (data (ex_objs 1)) = Some [d1, d2, d3, d4, d5, d6]"
  "length [d1, d2, d3, d4, d5, d6] = 2 * 3"
  "sint (rows (ex_objs 1)) = int 2" "sint (cols (ex_objs 1)) = int 3"
  "(2::nat) * 3 < 2 ^ 31" "(2::nat) * 3 \<le> host_cap ex_world"
  "device_ready (ex_objs 1) ex_world"
  by (simp_all add: ex_objs_def ex_world_def block_at_def nullptr_def device_ready_def
      Size_def ck_def)

lemma Transposed_no_rows:
  assumes "sint (rows m) \<le> 0" and "Size m = Inr n"
  shows "Transposed m w = Inr (malloc n w)"
proof -
  have "Transposed_rows m t 0 w' = Inr w'" for t w'
    using assms(1) by (subst Transposed_rows.simps) simp
  then show ?thesis
    using assms(2) by (cases "malloc n w") (simp add: Transposed_def thn_Inr)
qed

lemma IntoDevMatrix_ColMajor_no_rows:
  assumes res: "IntoDevMatrix_ColMajor m w = Inr (m1, w1)"
    and z: "sint (rows m) \<le> 0" and n: "Size m = Inr (int N)"
  shows "data m1 = data m" and "host w1 = host w"
proof -
  from res obtain v where
    "(if dev_data m = nullptr then AllocDevice m w else Inr (m, w)) = Inr v"
    and "(case v of (m0, w0) \<Rightarrow>
           thn (Transposed m0 w0) (\<lambda>(t, w2).
           thn (Size m0) (\<lambda>n.
           thn (cudaMemcpyHostToDevice (dev_data m0) t n w2) (\<lambda>w3.
           thn (CE w3) (\<lambda>w4.
           thn (free t w4) (\<lambda>w5. Inr (m0, w5))))))) = Inr (m1, w1)"
    unfolding IntoDevMatrix_ColMajor_def by (rule thn_InrE)
  then obtain m0 w0 where
    e: "(if dev_data m = nullptr then AllocDevice m w else Inr (m, w)) = Inr (m0, w0)"
    and rest0: "thn (Transposed m0 w0) (\<lambda>(t, w2).
           thn (Size m0) (\<lambda>n.
           thn (cudaMemcpyHostToDevice (dev_data m0) t n w2) (\<lambda>w3.
           thn (CE w3) (\<lambda>w4.
           thn (free t w4) (\<lambda>w5. Inr (m0, w5)))))) = Inr (m1, w1)"
    by (cases v) simp
  note f = ensure_dev_Inr(1-6) [OF e]
  have z0: "sint (rows m0) \<le> 0" and n0: "Size m0 = Inr (int N)" using z n f by simp_all
  obtain t w2 where ma: "malloc (int N) w0 = (t, w2)" by (cases "malloc (int N) w0")
  have tr: "Transposed m0 w0 = Inr (t, w2)" using Transposed_no_rows [OF z0 n0] ma by simp
  with rest0 n0 have "thn (cudaMemcpyHostToDevice (dev_data m0) t (int N) w2) (\<lambda>w3.
           thn (CE w3) (\<lambda>w4.
           thn (free t w4) (\<lambda>w5. Inr (m0, w5)))) = Inr (m1, w1)"
    by (simp add: thn_Inr)
  then obtain w3 where cp: "cudaMemcpyHostToDevice (dev_data m0) t (int N) w2 = Inr w3"
    and rest2: "thn (CE w3) (\<lambda>w4. thn (free t w4) (\<lambda>w5. Inr (m0, w5))) = Inr (m1, w1)"
    by (rule thn_InrE)
  from rest2 obtain w4 where ce: "CE w3 = Inr w4"
    and rest3: "thn (free t w4) (\<lambda>w5. Inr (m0, w5)) = Inr (m1, w1)"
    by (rule thn_InrE)
  from CE_Inr [OF ce] have w4: "w4 = w3" and ok: "last_error w3 = cudaSuccess" by simp_all
  from rest3 obtain w5 where fr: "free t w4 = Inr w5"
    and "Inr (m0, w5) = (Inr (m1, w1) :: error + Matrix \<times> world)"
    by (rule thn_InrE)
  then have m1: "m1 = m0" and w1: "w1 = w5" by simp_all
  note h = cudaMemcpyHostToDevice_Inr(1) [OF cp ok]
  show "data m1 = data m" using m1 f by simp
  have "host w5 = host w0"
  proof (cases "N \<le> host_cap w0")
    case True
    from malloc_ok [OF True] ma have t: "t = fresh (host w0)"
      and w2: "host w2 = (fresh (host w0), replicate N 0) # host w0" by auto
    have tn: "t \<noteq> nullptr" unfolding t by (rule fresh_nonnull)
    from free_Inr [OF fr] tn w4 have "host w5 = AList.delete t (host w3)" by simp
    also have "\<dots> = AList.delete t (host w0)" using h w2 t by simp
    also have "\<dots> = host w0" unfolding t by (rule delete_fresh)
    finally show ?thesis .
  next
    case False
    from malloc_fail [OF False] ma have t: "t = nullptr" and w2: "w2 = w0" by simp_all
    from free_Inr [OF fr] t w4 have "w5 = w3" by simp
    with h w2 show ?thesis by simp
  qed
  then show "host w1 = host w" using w1 f by simp
qed

lemma IntoDevMatrix_ColMajor_no_rows_total:
  assumes z: "sint (rows m) \<le> 0" and n: "Size m = Inr (int N)"
    and cap: "N \<le> host_cap w" and ready: "device_ready m w"
  shows "\<exists>m1 w1. IntoDevMatrix_ColMajor m w = Inr (m1, w1)"
proof -
  have nn: "0 \<le> int N" by simp
  from ensure_dev_ok [OF ready n nn] obtain m0 w0 d where
    e: "(if dev_data m = nullptr then AllocDevice m w else Inr (m, w)) = Inr (m0, w0)"
    and ok: "last_error w0 = cudaSuccess" and h: "host w0 = host w"
    and hc: "host_cap w0 = host_cap w"
    and f: "data m0 = data m" "rows m0 = rows m" "cols m0 = cols m"
    and d: "int N \<noteq> 0 \<longrightarrow> block_at (dev w0) (dev_data m0) = Some d \<and> nat (int N) \<le> length d"
    by blast
  have z0: "sint (rows m0) \<le> 0" and n0: "Size m0 = Inr (int N)"
    using z n f by (simp_all add: Size_def)
  have cap0: "N \<le> host_cap w0" using cap hc by simp
  let ?t = "fresh (host w0)"
  let ?w2 = "w0\<lparr>host := (?t, replicate N 0) # host w0\<rparr>"
  have tr: "Transposed m0 w0 = Inr (?t, ?w2)"
    using Transposed_no_rows [OF z0 n0] malloc_ok [OF cap0] by simp
  have tb: "block_at (host ?w2) ?t = Some (replicate N 0)"
    by (simp add: block_at_Cons fresh_nonnull)
  have "int N = 0 \<or>
      (\<exists>s d. block_at (host ?w2) ?t = Some s \<and> 0 \<le> int N \<and> nat (int N) \<le> length s \<and>
         block_at (dev ?w2) (dev_data m0) = Some d \<and> nat (int N) \<le> length d)"
  proof (cases "N = 0")
    case False
    with d have "block_at (dev ?w2) (dev_data m0) = Some d \<and> nat (int N) \<le> length d"
      by simp
    moreover have "nat (int N) \<le> length (replicate N (0::double))" by simp
    ultimately show ?thesis using tb nn by blast
  qed simp
  from cudaMemcpyHostToDevice_ok [OF this] obtain w3 where
    cp: "cudaMemcpyHostToDevice (dev_data m0) ?t (int N) ?w2 = Inr w3"
    and le: "last_error w3 = last_error ?w2" by blast
  from le ok have ok3: "last_error w3 = cudaSuccess" by simp
  then have ce: "CE w3 = Inr w3" by (rule CE_ok)
  from cudaMemcpyHostToDevice_Inr(1) [OF cp ok3] tb
  have "block_at (host w3) ?t = Some (replicate N 0)" by simp
  then have fr: "free ?t w3 = Inr (w3\<lparr>host := AList.delete ?t (host w3)\<rparr>)" by (rule free_ok)
  from e tr n0 cp ce fr
  have "IntoDevMatrix_ColMajor m w = Inr (m0, w3\<lparr>host := AList.delete ?t (host w3)\<rparr>)"
    by (simp add: IntoDevMatrix_ColMajor_def thn_Inr)
  then show ?thesis by blast
qed

lemma populated_no_rows:
  assumes "populated m w" and "\<not> (0 \<le> sint (rows m) \<and> 0 \<le> sint (cols m))"
  obtains N where "sint (rows m) \<le> 0" and "Size m = Inr (int N)"
proof -
  from populatedD [OF assms(1)] obtain n D where n: "Size m = Inr n"
    and D: "block_at (host w) (data m) = Some D" and l: "int (length D) = n" by blast
  from n have p: "sint (rows m) * sint (cols m) = n"
    by (auto simp: Size_def ck_def split: if_splits)
  have "sint (rows m) \<le> 0"
  proof (rule ccontr)
    assume "\<not> sint (rows m) \<le> 0"
    then have r: "0 < sint (rows m)" by simp
    with assms(2) have "sint (cols m) < 0" by simp
    with r have "sint (rows m) * sint (cols m) < 0" by (rule mult_pos_neg)
    with p l show False by simp
  qed
  moreover from n l have "Size m = Inr (int (length D))" by simp
  ultimately show ?thesis by (rule that)
qed

section \<open>Construction\<close>

text \<open>
  Claim C6, as amended. For all \<open>inCols, inRows \<ge> 0\<close> whose product fits in an
  \<^verbatim>\<open>int\<close>, \<^verbatim>\<open>Matrix(inCols, inRows)\<close> has \<^verbatim>\<open>cols == inCols\<close>, \<^verbatim>\<open>rows == inRows\<close>
  (columns first, then rows), \<^verbatim>\<open>Size()\<close> equal to the product of the two, and both
  pointers null; the default-constructed matrix has \<^verbatim>\<open>rows == cols == 0\<close> and both
  pointers null.
\<close>

theorem Matrix_sized_fields:
  assumes "0 \<le> sint inCols" and "0 \<le> sint inRows" and "sint inRows * sint inCols < 2 ^ 31"
  shows "cols (Matrix_sized inCols inRows) = inCols \<and>
         rows (Matrix_sized inCols inRows) = inRows \<and>
         Size (Matrix_sized inCols inRows) = Inr (sint inRows * sint inCols) \<and>
         data (Matrix_sized inCols inRows) = nullptr \<and>
         dev_data (Matrix_sized inCols inRows) = nullptr \<and>
         rows Matrix_default = 0 \<and> cols Matrix_default = 0 \<and>
         data Matrix_default = nullptr \<and> dev_data Matrix_default = nullptr"
proof -
  have "0 \<le> sint inRows * sint inCols" using assms by simp
  moreover have "- (2 ^ 31) \<le> (0 :: int)" by simp
  ultimately have "- (2 ^ 31) \<le> sint inRows * sint inCols" by (rule order_trans [rotated])
  with assms(3) show ?thesis
    by (simp add: Matrix_sized_def Matrix_default_def Size_def ck_def)
qed

theorem Matrix_sized_fields_witness:
  "0 \<le> sint (3 :: 32 word) \<and> 0 \<le> sint (2 :: 32 word) \<and>
   sint (2 :: 32 word) * sint (3 :: 32 word) < 2 ^ 31 \<and>
   cols (Matrix_sized 3 2) = 3 \<and> rows (Matrix_sized 3 2) = 2 \<and>
   Size (Matrix_sized 3 2) = Inr 6 \<and>
   data (Matrix_sized 3 2) = nullptr \<and> dev_data (Matrix_sized 3 2) = nullptr"
  using Matrix_sized_fields [of 3 2] by simp

text \<open>
  Without the bound the claim fails: for \<open>65536\<close> columns and \<open>65536\<close> rows the
  multiplication in \<^verbatim>\<open>Size()\<close> overflows \<^verbatim>\<open>int\<close>, so \<^verbatim>\<open>Size()\<close> does not return
  the product.
\<close>

theorem Size_overflow_counterexample:
  "0 \<le> sint (65536 :: 32 word) \<and>
   Size (Matrix_sized 65536 65536) = Inl SignedOverflow \<and>
   Size (Matrix_sized 65536 65536) \<noteq> Inr (sint (65536 :: 32 word) * sint (65536 :: 32 word))"
  by (simp add: Matrix_sized_def Matrix_default_def Size_def ck_def)

section \<open>Freeing\<close>

text \<open>
  Claim C7. Freeing a null buffer is a no-op: \<^verbatim>\<open>FreeHost\<close> (respectively
  \<^verbatim>\<open>FreeDevice\<close>) called while the host (respectively device) pointer is null returns
  the matrix and both memories exactly as they were. \<^verbatim>\<open>FreeHost\<close> returns whenever
  the host pointer is live, and \<^verbatim>\<open>FreeDevice\<close> always. After any call of
  \<^verbatim>\<open>FreeHost\<close> (respectively \<^verbatim>\<open>FreeDevice\<close>) the pointer is null, so that a
  second call changes nothing and frees nothing again.
\<close>

theorem free_null_noop:
  "(data m = nullptr \<longrightarrow> FreeHost m w = Inr (m, w)) \<and>
   (dev_data m = nullptr \<longrightarrow> FreeDevice m w = (m, w)) \<and>
   (block_at (host w) (data m) \<noteq> None \<longrightarrow> (\<exists>m' w'. FreeHost m w = Inr (m', w'))) \<and>
   (\<forall>m' w'. FreeHost m w = Inr (m', w') \<longrightarrow>
      data m' = nullptr \<and> FreeHost m' w' = Inr (m', w')) \<and>
   (\<forall>m' w'. FreeDevice m w = (m', w') \<longrightarrow>
      dev_data m' = nullptr \<and> FreeDevice m' w' = (m', w'))"
proof (intro conjI allI impI)
  assume "block_at (host w) (data m) \<noteq> None"
  then show "\<exists>m' w'. FreeHost m w = Inr (m', w')"
    by (auto simp: FreeHost_def free_def thn_def)
next
  fix m' w' assume "FreeHost m w = Inr (m', w')"
  then have "data m' = nullptr" by (auto dest: FreeHost_Inr)
  then show "data m' = nullptr" and "FreeHost m' w' = Inr (m', w')"
    by (simp_all add: FreeHost_null)
next
  fix m' w' assume "FreeDevice m w = (m', w')"
  then have "dev_data m' = nullptr" by (auto dest: FreeDevice_eq)
  then show "dev_data m' = nullptr" and "FreeDevice m' w' = (m', w')"
    by (simp_all add: FreeDevice_null)
qed (simp_all add: FreeHost_null FreeDevice_null)

theorem free_null_noop_witness:
  "FreeHost Matrix_default ex_world = Inr (Matrix_default, ex_world) \<and>
   FreeDevice Matrix_default ex_world = (Matrix_default, ex_world) \<and>
   (\<exists>m' w'. FreeHost (ex_objs 0) ex_world = Inr (m', w') \<and> block_at (host w') 2 = None \<and>
      data m' = nullptr \<and> FreeHost m' w' = Inr (m', w')) \<and>
   (\<exists>m' w'. FreeDevice (ex_objs 0) ex_world = (m', w') \<and> block_at (dev w') 1 = None \<and>
      dev_data m' = nullptr \<and> FreeDevice m' w' = (m', w'))"
proof -
  have "data Matrix_default = nullptr" and "dev_data Matrix_default = nullptr"
    by (simp_all add: Matrix_default_def)
  with free_null_noop [of Matrix_default ex_world]
  have a: "FreeHost Matrix_default ex_world = Inr (Matrix_default, ex_world)"
    and b: "FreeDevice Matrix_default ex_world = (Matrix_default, ex_world)"
    by blast+
  have "block_at (host ex_world) (data (ex_objs 0)) \<noteq> None"
    by (simp add: ex_objs_def ex_world_def block_at_def nullptr_def)
  with free_null_noop [of "ex_objs 0" ex_world]
  obtain m1 w1 where h: "FreeHost (ex_objs 0) ex_world = Inr (m1, w1)" by blast
  then have h': "block_at (host w1) 2 = None"
    by (auto simp: FreeHost_def free_def thn_def ex_objs_def ex_world_def block_at_def
        nullptr_def AList.delete_eq)
  obtain m2 w2 where g: "FreeDevice (ex_objs 0) ex_world = (m2, w2)"
    and g': "block_at (dev w2) 1 = None"
    by (simp add: FreeDevice_def cudaFree_def ex_objs_def ex_world_def block_at_def
        nullptr_def AList.delete_eq)
  from free_null_noop [of "ex_objs 0" ex_world] h
  have c: "data m1 = nullptr \<and> FreeHost m1 w1 = Inr (m1, w1)" by blast
  from free_null_noop [of "ex_objs 0" ex_world] g
  have e: "dev_data m2 = nullptr \<and> FreeDevice m2 w2 = (m2, w2)" by blast
  from a b h h' c g g' e show ?thesis by blast
qed

section \<open>Move assignment: the transfer\<close>

text \<open>
  Claim C2. For two distinct matrix objects \<open>B\<close> (\<^verbatim>\<open>*this\<close>) and \<open>A\<close> (\<^verbatim>\<open>other\<close>),
  \<^verbatim>\<open>B = move(A)\<close> completes whenever \<open>B\<close>'s host pointer is null or live, and then
  \<open>B\<close> holds \<open>A\<close>'s original host pointer, device pointer, rows and cols; the buffers
  \<open>B\<close> owned before are no longer live, the memories being exactly what \<open>B\<close>'s own
  \<^verbatim>\<open>FreeHost\<close> and \<^verbatim>\<open>FreeDevice\<close> left; and \<open>A\<close> has both pointers null, so that
  destroying \<open>A\<close> afterwards changes nothing.
\<close>

theorem move_assign_transfer:
  assumes "this \<noteq> other"
  shows "(data (s this) = nullptr \<or> block_at (host w) (data (s this)) \<noteq> None \<longrightarrow>
            (\<exists>s' w'. move_assign this other s w = Inr (s', w'))) \<and>
         (\<forall>s' w'. move_assign this other s w = Inr (s', w') \<longrightarrow>
            data (s' this) = data (s other) \<and> dev_data (s' this) = dev_data (s other) \<and>
            rows (s' this) = rows (s other) \<and> cols (s' this) = cols (s other) \<and>
            block_at (host w') (data (s this)) = None \<and>
            block_at (dev w') (dev_data (s this)) = None \<and>
            (\<exists>m1 w1. FreeHost (s this) w = Inr (m1, w1) \<and> w' = snd (FreeDevice m1 w1)) \<and>
            data (s' other) = nullptr \<and> dev_data (s' other) = nullptr \<and>
            destructor (s' other) w' = Inr (s' other, w'))"
proof (intro conjI allI impI)
  assume "data (s this) = nullptr \<or> block_at (host w) (data (s this)) \<noteq> None"
  then show "\<exists>s' w'. move_assign this other s w = Inr (s', w')"
    by (rule move_assign_total)
next
  fix s' w'
  assume r: "move_assign this other s w = Inr (s', w')"
  from move_assign_Inr(2) [OF r assms]
  show "data (s' this) = data (s other)" and "dev_data (s' this) = dev_data (s other)"
    and "rows (s' this) = rows (s other)" and "cols (s' this) = cols (s other)"
    by simp_all
  from move_assign_Inr(1) [OF r]
  obtain m1 w1 where f: "FreeHost (s this) w = Inr (m1, w1)" and w': "w' = snd (FreeDevice m1 w1)"
    by blast
  then show "\<exists>m1 w1. FreeHost (s this) w = Inr (m1, w1) \<and> w' = snd (FreeDevice m1 w1)"
    by blast
  obtain m2 where d: "FreeDevice m1 w1 = (m2, w')"
    using w' by (cases "FreeDevice m1 w1") simp
  from FreeHost_Inr [OF f] have m1: "m1 = (s this)\<lparr>data := nullptr\<rparr>"
    and h1: "block_at (host w1) (data (s this)) = None" by blast+
  from FreeDevice_eq [OF d] have "block_at (dev w') (dev_data m1) = None" and "host w' = host w1"
    by blast+
  with m1 h1 show "block_at (host w') (data (s this)) = None"
    and "block_at (dev w') (dev_data (s this)) = None" by simp_all
  from move_assign_Inr(3) [OF r]
  have "data (s' other) = data ((s' other)\<lparr>data := nullptr, dev_data := nullptr\<rparr>)"
    and "dev_data (s' other) = dev_data ((s' other)\<lparr>data := nullptr, dev_data := nullptr\<rparr>)"
    by simp_all
  then show n: "data (s' other) = nullptr" and n': "dev_data (s' other) = nullptr" by simp_all
  then show "destructor (s' other) w' = Inr (s' other, w')" by (rule destructor_null)
qed

theorem move_assign_transfer_witness:
  "(0::nat) \<noteq> 1 \<and>
   (\<exists>s' w'. move_assign 0 1 ex_objs ex_world = Inr (s', w') \<and>
      s' 0 = \<lparr>data = 1, dev_data = 2, rows = 2, cols = 3\<rparr> \<and>
      block_at (host w') 2 = None \<and> block_at (dev w') 1 = None \<and>
      block_at (host w') 1 = Some [d1, d2, d3, d4, d5, d6] \<and>
      data (s' 1) = nullptr \<and> dev_data (s' 1) = nullptr \<and>
      destructor (s' 1) w' = Inr (s' 1, w'))"
proof -
  have ne: "(0::nat) \<noteq> 1" by simp
  have live: "data (ex_objs 0) = nullptr \<or> block_at (host ex_world) (data (ex_objs 0)) \<noteq> None"
    by (simp add: ex_objs_def ex_world_def block_at_def nullptr_def)
  from move_assign_transfer [OF ne, of ex_objs ex_world] live
  obtain s' w' where r: "move_assign 0 1 ex_objs ex_world = Inr (s', w')" by blast
  with move_assign_transfer [OF ne, of ex_objs ex_world]
  have c: "data (s' 0) = data (ex_objs 1)" "dev_data (s' 0) = dev_data (ex_objs 1)"
      "rows (s' 0) = rows (ex_objs 1)" "cols (s' 0) = cols (ex_objs 1)"
      "block_at (host w') (data (ex_objs 0)) = None"
      "block_at (dev w') (dev_data (ex_objs 0)) = None"
      "data (s' 1) = nullptr" "dev_data (s' 1) = nullptr"
      "destructor (s' 1) w' = Inr (s' 1, w')"
    by blast+
  have "host w' = [(1, [d1, d2, d3, d4, d5, d6]), (3, [d1, d2, d3, d4, d5, d7]), (4, [d1, d2, d3, d4])]"
    using r by (auto simp: move_assign_def ex_objs_def ex_world_def FreeHost_def FreeDevice_def
        free_def cudaFree_def thn_def block_at_def nullptr_def Let_def AList.delete_eq)
  then have "block_at (host w') 1 = Some [d1, d2, d3, d4, d5, d6]"
    by (simp add: block_at_def nullptr_def)
  moreover have "s' 0 = \<lparr>data = 1, dev_data = 2, rows = 2, cols = 3\<rparr>"
    using c(1-4) by (cases "s' 0") (simp add: ex_objs_def)
  ultimately show ?thesis using ne r c by (simp add: ex_objs_def)
qed

text \<open>
  Claim C9. After \<^verbatim>\<open>B = move(A)\<close> the source \<open>A\<close> still has the rows and cols it
  had: only its two pointers are reset to null, and \<^verbatim>\<open>A.Size()\<close> returns what it
  returned before the move.
\<close>

theorem move_assign_source_dims:
  assumes "move_assign this other s w = Inr (s', w')"
  shows "rows (s' other) = rows (s other) \<and> cols (s' other) = cols (s other) \<and>
         Size (s' other) = Size (s other) \<and>
         data (s' other) = nullptr \<and> dev_data (s' other) = nullptr"
proof -
  from move_assign_Inr(3) [OF assms]
  have "data (s' other) = data ((s' other)\<lparr>data := nullptr, dev_data := nullptr\<rparr>)"
    and "dev_data (s' other) = dev_data ((s' other)\<lparr>data := nullptr, dev_data := nullptr\<rparr>)"
    by simp_all
  then show ?thesis
    using move_assign_Inr(4,5) [OF assms] by (simp add: Size_def)
qed

theorem move_assign_source_dims_witness:
  "\<exists>s' w'. move_assign 0 1 ex_objs ex_world = Inr (s', w') \<and>
     rows (s' 1) = 2 \<and> cols (s' 1) = 3 \<and> Size (s' 1) = Inr 6 \<and>
     data (s' 1) = nullptr \<and> dev_data (s' 1) = nullptr"
proof -
  have "data (ex_objs 0) = nullptr \<or> block_at (host ex_world) (data (ex_objs 0)) \<noteq> None"
    by (simp add: ex_objs_def ex_world_def block_at_def nullptr_def)
  then obtain s' w' where r: "move_assign 0 1 ex_objs ex_world = Inr (s', w')"
    using move_assign_total by blast
  from move_assign_source_dims [OF r]
  have "rows (s' 1) = 2 \<and> cols (s' 1) = 3 \<and> Size (s' 1) = Inr 6 \<and>
     data (s' 1) = nullptr \<and> dev_data (s' 1) = nullptr"
    by (simp add: ex_objs_def Size_def ck_def)
  with r show ?thesis by blast
qed

section \<open>Row-major transfers\<close>

text \<open>
  Claim C3. For every matrix with a populated host buffer, \<^verbatim>\<open>IntoDevMatrix\<close> followed
  by \<^verbatim>\<open>FromDevMatrix\<close> leaves the host pointer, the dimensions and the whole host
  memory as they were, so the host buffer holds exactly the original \<^verbatim>\<open>rows * cols\<close>
  values; and the two calls do return when the device side is ready.
\<close>

theorem rowmajor_roundtrip:
  assumes p: "populated m w"
  shows "(\<forall>m1 w1 m2 w2. IntoDevMatrix m w = Inr (m1, w1) \<longrightarrow> FromDevMatrix m1 w1 = Inr (m2, w2) \<longrightarrow>
            data m2 = data m \<and> rows m2 = rows m \<and> cols m2 = cols m \<and> host w2 = host w \<and>
            block_at (host w2) (data m2) = block_at (host w) (data m)) \<and>
         (device_ready m w \<longrightarrow>
            (\<exists>m1 w1 m2 w2. IntoDevMatrix m w = Inr (m1, w1) \<and> FromDevMatrix m1 w1 = Inr (m2, w2)))"
proof -
  from populatedD [OF p] obtain n D where n: "Size m = Inr n"
    and D: "block_at (host w) (data m) = Some D" and l: "int (length D) = n" by blast
  have post: "Size m1 = Inr n \<and> block_at (host w1) (data m1) = Some D \<and>
      last_error w1 = cudaSuccess \<and> data m1 = data m \<and> rows m1 = rows m \<and> cols m1 = cols m \<and>
      host w1 = host w \<and>
      (n \<noteq> 0 \<longrightarrow> (\<exists>S. block_at (dev w1) (dev_data m1) = Some S \<and> take (nat n) S = D))"
    if a: "IntoDevMatrix m w = Inr (m1, w1)" for m1 w1
    using IntoDevMatrix_Inr [OF a n D l] n D by (simp add: Size_def)
  show ?thesis
  proof (intro conjI allI impI)
    fix m1 w1 m2 w2
    assume a: "IntoDevMatrix m w = Inr (m1, w1)" and b: "FromDevMatrix m1 w1 = Inr (m2, w2)"
    note q = post [OF a]
    from q have n1: "Size m1 = Inr n" and D1: "block_at (host w1) (data m1) = Some D"
      and S: "n \<noteq> 0 \<Longrightarrow> \<exists>S. block_at (dev w1) (dev_data m1) = Some S \<and> take (nat n) S = D"
      by blast+
    from FromDevMatrix_Inr(1,2) [OF b n1 D1 l S] have "m2 = m1" and "host w2 = host w1" by simp_all
    with q show "data m2 = data m" and "rows m2 = rows m" and "cols m2 = cols m"
      and "host w2 = host w" and "block_at (host w2) (data m2) = block_at (host w) (data m)"
      by simp_all
  next
    assume r: "device_ready m w"
    from IntoDevMatrix_total [OF p r] obtain m1 w1 where a: "IntoDevMatrix m w = Inr (m1, w1)"
      by blast
    note q = post [OF a]
    from q have n1: "Size m1 = Inr n" and D1: "block_at (host w1) (data m1) = Some D"
      and S: "n \<noteq> 0 \<Longrightarrow> \<exists>S. block_at (dev w1) (dev_data m1) = Some S \<and> take (nat n) S = D"
      and ok: "last_error w1 = cudaSuccess"
      by blast+
    from FromDevMatrix_total [OF n1 D1 l S ok] a
    show "\<exists>m1 w1 m2 w2. IntoDevMatrix m w = Inr (m1, w1) \<and> FromDevMatrix m1 w1 = Inr (m2, w2)"
      by blast
  qed
qed


theorem rowmajor_roundtrip_witness:
  "populated (ex_objs 1) ex_world \<and> device_ready (ex_objs 1) ex_world \<and>
   (\<exists>m1 w1 m2 w2. IntoDevMatrix (ex_objs 1) ex_world = Inr (m1, w1) \<and>
      FromDevMatrix m1 w1 = Inr (m2, w2) \<and>
      block_at (host w2) (data m2) = Some [d1, d2, d3, d4, d5, d6])"
proof -
  have p: "populated (ex_objs 1) ex_world"
    by (simp add: populated_def ex_objs_def ex_world_def Size_def ck_def block_at_def nullptr_def)
  have r: "device_ready (ex_objs 1) ex_world"
    by (simp add: device_ready_def ex_objs_def ex_world_def Size_def ck_def block_at_def
        nullptr_def)
  from rowmajor_roundtrip [OF p] r obtain m1 w1 m2 w2 where
    a: "IntoDevMatrix (ex_objs 1) ex_world = Inr (m1, w1)"
    and b: "FromDevMatrix m1 w1 = Inr (m2, w2)" by blast
  with rowmajor_roundtrip [OF p]
  have "block_at (host w2) (data m2) = block_at (host ex_world) (data (ex_objs 1))" by blast
  also have "\<dots> = Some [d1, d2, d3, d4, d5, d6]"
    by (simp add: ex_objs_def ex_world_def block_at_def nullptr_def)
  finally show ?thesis using p r a b by blast
qed

section \<open>Approximate equality\<close>




text \<open>
  Claim C5. \<^verbatim>\<open>IsDeltaEqual\<close> is reflexive: for every matrix \<open>A\<close> with a populated host
  buffer, whatever its cells, and every \<open>delta \<ge> 0\<close>, \<^verbatim>\<open>A.IsDeltaEqual(A, delta)\<close>
  returns true, and so it does for the default tolerance \<open>1e-3\<close>.
\<close>

theorem IsDeltaEqual_refl:
  assumes "populated A w"
  shows "(dle 0 delta \<longrightarrow> IsDeltaEqual A A delta w = Inr True) \<and>
         IsDeltaEqual A A default_delta w = Inr True"
proof -
  from populatedD [OF assms] obtain n a where n: "Size A = Inr n"
    and a: "block_at (host w) (data A) = Some a" and la: "int (length a) = n" by blast
  have "IsDeltaEqual A A d w = Inr True" if "dle 0 d" for d
    using IsDeltaEqual_eq [OF n a a la la, of d] not_dgt_self_diff [OF that] by simp
  moreover have "dle 0 default_delta"
    by (rule dle_zero_positive) (simp_all add: default_delta_def)
  ultimately show ?thesis by blast
qed

theorem IsDeltaEqual_refl_witness:
  "populated (ex_objs 1) ex_world \<and> dle 0 d_quarter \<and>
   IsDeltaEqual (ex_objs 1) (ex_objs 1) d_quarter ex_world = Inr True \<and>
   IsDeltaEqual (ex_objs 1) (ex_objs 1) default_delta ex_world = Inr True \<and>
   populated (ex_fp_objs 0) ex_fp_world \<and>
   IsDeltaEqual (ex_fp_objs 0) (ex_fp_objs 0) default_delta ex_fp_world = Inr True"
proof -
  have p: "populated (ex_objs 1) ex_world"
    by (simp add: populated_def ex_objs_def ex_world_def Size_def ck_def block_at_def nullptr_def)
  have p': "populated (ex_fp_objs 0) ex_fp_world"
    by (simp add: populated_def ex_fp_objs_def ex_fp_world_def Size_def ck_def block_at_def
        nullptr_def)
  have q: "dle 0 d_quarter"
    by (rule dle_zero_positive) (simp_all add: d_quarter_def)
  from IsDeltaEqual_refl [OF p, of d_quarter] IsDeltaEqual_refl [OF p', of d_quarter] p p' q
  show ?thesis by blast
qed

section \<open>Column-major transfers\<close>

text \<open>
  Claim C8. For every matrix with a populated host buffer, after
  \<^verbatim>\<open>IntoDevMatrix_ColMajor\<close> the host pointer and the whole host memory, hence all
  \<^verbatim>\<open>rows * cols\<close> host values, are unchanged,
  and the device buffer holds the matrix in column-major layout: its cell
  \<open>j * rows + i\<close> is the host cell \<open>i * cols + j\<close> for all \<open>0 \<le> i < rows\<close> and
  \<open>0 \<le> j < cols\<close>. The call returns when the device side is ready and the host can
  provide the temporary block.
\<close>

theorem colmajor_push:
  assumes "populated m w"
  shows "(\<forall>m1 w1. IntoDevMatrix_ColMajor m w = Inr (m1, w1) \<longrightarrow>
            data m1 = data m \<and> host w1 = host w \<and>
            block_at (host w1) (data m1) = block_at (host w) (data m) \<and>
            (\<forall>i j. 0 \<le> i \<and> i < sint (rows m) \<and> 0 \<le> j \<and> j < sint (cols m) \<longrightarrow>
               cell (host w) (data m) (i * sint (cols m) + j) \<noteq> None \<and>
               cell (dev w1) (dev_data m1) (j * sint (rows m) + i) =
                 cell (host w) (data m) (i * sint (cols m) + j))) \<and>
         (device_ready m w \<and> host_can_transpose m w \<longrightarrow>
            (\<exists>m1 w1. IntoDevMatrix_ColMajor m w = Inr (m1, w1)))"
proof (cases "0 \<le> sint (rows m) \<and> 0 \<le> sint (cols m)")
  case False
  with assms obtain N where z: "sint (rows m) \<le> 0" and n: "Size m = Inr (int N)"
    by (rule populated_no_rows)
  show ?thesis
  proof (intro conjI allI impI)
    assume "device_ready m w \<and> host_can_transpose m w"
    then have ready: "device_ready m w" and "host_can_transpose m w" by simp_all
    from this(2) n have cap: "N \<le> host_cap w" by (rule host_can_transposeD)
    from z n cap ready show "\<exists>m1 w1. IntoDevMatrix_ColMajor m w = Inr (m1, w1)"
      by (rule IntoDevMatrix_ColMajor_no_rows_total)
  next
    fix m1 w1 assume a: "IntoDevMatrix_ColMajor m w = Inr (m1, w1)"
    note f = IntoDevMatrix_ColMajor_no_rows [OF a z n]
    show "data m1 = data m" and "host w1 = host w" by (rule f(1), rule f(2))
    then show "block_at (host w1) (data m1) = block_at (host w) (data m)" by simp
    fix i j :: int
    assume "0 \<le> i \<and> i < sint (rows m) \<and> 0 \<le> j \<and> j < sint (cols m)"
    with z have False by simp
    then show "cell (host w) (data m) (i * sint (cols m) + j) \<noteq> None"
      and "cell (dev w1) (dev_data m1) (j * sint (rows m) + i) =
        cell (host w) (data m) (i * sint (cols m) + j)"
      by simp_all
  qed
next
  case True
  with assms obtain R C D where r: "sint (rows m) = int R" and c: "sint (cols m) = int C"
    and fits: "R * C < 2 ^ 31" and n: "Size m = Inr (int (R * C))"
    and D: "block_at (host w) (data m) = Some D" and lD: "length D = R * C"
    by (elim conjE populated_dims)
  show ?thesis
  proof (intro conjI allI impI)
    assume "device_ready m w \<and> host_can_transpose m w"
    then have ready: "device_ready m w" and "host_can_transpose m w" by simp_all
    from this(2) n have cap: "R * C \<le> host_cap w" by (rule host_can_transposeD)
    from D lD r c fits cap ready
    show "\<exists>m1 w1. IntoDevMatrix_ColMajor m w = Inr (m1, w1)"
      by (rule IntoDevMatrix_ColMajor_total)
  next
    fix m1 w1 assume a: "IntoDevMatrix_ColMajor m w = Inr (m1, w1)"
    note f = IntoDevMatrix_ColMajor_Inr [OF a D lD r c fits]
    show "data m1 = data m" and "host w1 = host w" by (rule f(1), rule f(4))
    then show "block_at (host w1) (data m1) = block_at (host w) (data m)" by simp
    fix i j :: int
    assume b: "0 \<le> i \<and> i < sint (rows m) \<and> 0 \<le> j \<and> j < sint (cols m)"
    define i' j' where "i' = nat i" and "j' = nat j"
    with b r c have i: "i = int i'" and j: "j = int j'" and iR: "i' < R" and jC: "j' < C"
      by auto
    have kh: "i' * C + j' < R * C" using iR jC by (rule idx_row_bound)
    have kd: "j' * R + i' < R * C" using iR jC by (rule idx_col_bound)
    have eh: "i * sint (cols m) + j = int (i' * C + j')" using i j c by simp
    have ed: "j * sint (rows m) + i = int (j' * R + i')" using i j r by simp
    have h: "cell (host w) (data m) (i * sint (cols m) + j) = Some (D ! (i' * C + j'))"
      unfolding eh using D kh lD by (intro cell_nat) simp_all
    then show "cell (host w) (data m) (i * sint (cols m) + j) \<noteq> None" by simp
    from iR jC have "R * C \<noteq> 0" by auto
    from f(8) [OF this] obtain S where s: "block_at (dev w1) (dev_data m1) = Some S"
      and t: "take (R * C) S = colmajor R C D" by blast
    from t have "length (take (R * C) S) = R * C" by (simp add: colmajor_length)
    then have lS: "R * C \<le> length S" by simp
    have "cell (dev w1) (dev_data m1) (j * sint (rows m) + i) = Some (S ! (j' * R + i'))"
      unfolding ed using s kd lS by (intro cell_nat) simp_all
    also have "S ! (j' * R + i') = take (R * C) S ! (j' * R + i')" using kd by simp
    also have "\<dots> = D ! (i' * C + j')" unfolding t using iR jC by (rule colmajor_nth)
    finally show "cell (dev w1) (dev_data m1) (j * sint (rows m) + i) =
        cell (host w) (data m) (i * sint (cols m) + j)"
      using h by simp
  qed
qed

theorem colmajor_push_witness:
  "populated (ex_objs 1) ex_world \<and> device_ready (ex_objs 1) ex_world \<and>
   host_can_transpose (ex_objs 1) ex_world \<and>
   (\<exists>m1 w1. IntoDevMatrix_ColMajor (ex_objs 1) ex_world = Inr (m1, w1) \<and>
      data m1 = 1 \<and> host w1 = host ex_world \<and>
      cell (dev w1) (dev_data m1) 3 = Some d5)"
proof -
  have p: "populated (ex_objs 1) ex_world"
    by (simp add: populated_def ex_objs_def ex_world_def Size_def ck_def block_at_def nullptr_def)
  have d: "device_ready (ex_objs 1) ex_world"
    by (simp add: device_ready_def ex_objs_def ex_world_def Size_def ck_def block_at_def
        nullptr_def)
  have h: "host_can_transpose (ex_objs 1) ex_world"
    by (simp add: host_can_transpose_def ex_objs_def ex_world_def Size_def ck_def)
  from colmajor_push [OF p] d h obtain m1 w1 where
    a: "IntoDevMatrix_ColMajor (ex_objs 1) ex_world = Inr (m1, w1)" by blast
  have b: "(0::int) \<le> 1 \<and> 1 < sint (rows (ex_objs 1)) \<and> (0::int) \<le> 1 \<and> 1 < sint (cols (ex_objs 1))"
    by (simp add: ex_objs_def)
  from colmajor_push [OF p] a b
  have "data m1 = data (ex_objs 1)" and "host w1 = host ex_world"
    and "cell (dev w1) (dev_data m1) (1 * sint (rows (ex_objs 1)) + 1) =
         cell (host ex_world) (data (ex_objs 1)) (1 * sint (cols (ex_objs 1)) + 1)"
    by blast+
  moreover have "cell (host ex_world) (data (ex_objs 1)) (1 * sint (cols (ex_objs 1)) + 1) = Some d5"
    by (simp add: cell_def ex_objs_def ex_world_def block_at_def nullptr_def)
  moreover have "1 * sint (rows (ex_objs 1)) + 1 = 3" and "data (ex_objs 1) = 1"
    by (simp_all add: ex_objs_def)
  ultimately have "data m1 = 1 \<and> host w1 = host ex_world \<and> cell (dev w1) (dev_data m1) 3 = Some d5"
    by simp
  with p d h a show ?thesis by blast
qed

text \<open>
  Claim C10. For every square matrix (\<^verbatim>\<open>rows == cols\<close>, a non-negative number as
  the data model has it) with a populated host buffer, \<^verbatim>\<open>IntoDevMatrix_ColMajor\<close>
  followed by \<^verbatim>\<open>FromDevMatrix_ColMajor\<close> leaves the host buffer with exactly its
  original contents, and the two calls return when the device side is ready and the
  host can provide the temporary blocks.
\<close>

theorem colmajor_roundtrip_square:
  assumes "populated m w" and "0 \<le> sint (rows m)" and "rows m = cols m"
  shows "(\<forall>m1 w1 m2 w2. IntoDevMatrix_ColMajor m w = Inr (m1, w1) \<longrightarrow>
            FromDevMatrix_ColMajor m1 w1 = Inr (m2, w2) \<longrightarrow>
            block_at (host w2) (data m2) = block_at (host w) (data m) \<and>
            rows m2 = rows m \<and> cols m2 = cols m) \<and>
         (device_ready m w \<and> host_can_transpose m w \<longrightarrow>
            (\<exists>m1 w1 m2 w2. IntoDevMatrix_ColMajor m w = Inr (m1, w1) \<and>
               FromDevMatrix_ColMajor m1 w1 = Inr (m2, w2)))"
proof -
  from assms(2,3) have "0 \<le> sint (cols m)" by simp
  with assms(1,2) obtain R C D where r: "sint (rows m) = int R" and c: "sint (cols m) = int C"
    and fits: "R * C < 2 ^ 31" and n: "Size m = Inr (int (R * C))"
    and D: "block_at (host w) (data m) = Some D" and lD: "length D = R * C"
    by (rule populated_dims)
  from r c assms(3) have RC: "C = R" by simp
  show ?thesis
  proof (intro conjI allI impI)
    assume "device_ready m w \<and> host_can_transpose m w"
    then have ready: "device_ready m w" and "host_can_transpose m w" by simp_all
    from this(2) n have cap: "R * C \<le> host_cap w" by (rule host_can_transposeD)
    from D lD r c fits cap ready
    show "\<exists>m1 w1 m2 w2. IntoDevMatrix_ColMajor m w = Inr (m1, w1) \<and>
               FromDevMatrix_ColMajor m1 w1 = Inr (m2, w2)"
      by (rule colmajor_roundtrip_total)
  next
    fix m1 w1 m2 w2
    assume a: "IntoDevMatrix_ColMajor m w = Inr (m1, w1)"
      and b: "FromDevMatrix_ColMajor m1 w1 = Inr (m2, w2)"
    note g = colmajor_roundtrip_Inr [OF D lD r c fits a b]
    from lD RC have "colmajor R C (colmajor R C D) = D" by (simp add: colmajor_square)
    with g(1) D show "block_at (host w2) (data m2) = block_at (host w) (data m)" by simp
    show "rows m2 = rows m" and "cols m2 = cols m" by (rule g(2), rule g(3))
  qed
qed


theorem colmajor_roundtrip_square_witness:
  "populated (ex_objs 3) ex_world \<and> 0 \<le> sint (rows (ex_objs 3)) \<and>
   rows (ex_objs 3) = cols (ex_objs 3) \<and> device_ready (ex_objs 3) ex_world \<and>
   host_can_transpose (ex_objs 3) ex_world \<and>
   (\<exists>m1 w1 m2 w2. IntoDevMatrix_ColMajor (ex_objs 3) ex_world = Inr (m1, w1) \<and>
      FromDevMatrix_ColMajor m1 w1 = Inr (m2, w2) \<and>
      block_at (host w2) (data m2) = Some [d1, d2, d3, d4])"
proof -
  have p: "populated (ex_objs 3) ex_world"
    by (simp add: populated_def ex_objs_def ex_world_def Size_def ck_def block_at_def nullptr_def)
  have r: "0 \<le> sint (rows (ex_objs 3))" and s: "rows (ex_objs 3) = cols (ex_objs 3)"
    by (simp_all add: ex_objs_def)
  have d: "device_ready (ex_objs 3) ex_world"
    by (simp add: device_ready_def ex_objs_def ex_world_def Size_def ck_def block_at_def
        nullptr_def)
  have h: "host_can_transpose (ex_objs 3) ex_world"
    by (simp add: host_can_transpose_def ex_objs_def ex_world_def Size_def ck_def)
  from colmajor_roundtrip_square [OF p r s] d h obtain m1 w1 m2 w2 where
    a: "IntoDevMatrix_ColMajor (ex_objs 3) ex_world = Inr (m1, w1)"
    and b: "FromDevMatrix_ColMajor m1 w1 = Inr (m2, w2)" by blast
  with colmajor_roundtrip_square [OF p r s]
  have "block_at (host w2) (data m2) = block_at (host ex_world) (data (ex_objs 3))" by blast
  also have "\<dots> = Some [d1, d2, d3, d4]"
    by (simp add: ex_objs_def ex_world_def block_at_def nullptr_def)
  finally show ?thesis using p r s d h a b by blast
qed

text \<open>
  Claim C1 says the same of every rectangular matrix (\<^verbatim>\<open>rows != cols\<close>). The code does
  not do it: \<^verbatim>\<open>FromDevMatrix_ColMajor\<close> undoes the transposition with the very
  \<^verbatim>\<open>Transposed()\<close> that did it, which reads the column-major buffer as if it were
  row-major with the same \<^verbatim>\<open>rows\<close> and \<^verbatim>\<open>cols\<close>. On the 2 by 3 matrix
  \<open>[[1, 2, 3], [4, 5, 6]]\<close> the two calls return and leave \<open>[1, 5, 4, 3, 2, 6]\<close> in
  the host buffer.
\<close>

theorem colmajor_roundtrip_2x3:
  "\<exists>m1 w1 m2 w2. IntoDevMatrix_ColMajor (ex_objs 1) ex_world = Inr (m1, w1) \<and>
     FromDevMatrix_ColMajor m1 w1 = Inr (m2, w2) \<and>
     rows (ex_objs 1) = 2 \<and> cols (ex_objs 1) = 3 \<and>
     block_at (host ex_world) (data (ex_objs 1)) = Some [d1, d2, d3, d4, d5, d6] \<and>
     block_at (host w2) (data m2) = Some [d1, d5, d4, d3, d2, d6]"
proof -
  note e = ex_rect_facts
  from colmajor_roundtrip_total [OF e(1-7)] obtain m1 w1 m2 w2 where
    a: "IntoDevMatrix_ColMajor (ex_objs 1) ex_world = Inr (m1, w1)"
    and b: "FromDevMatrix_ColMajor m1 w1 = Inr (m2, w2)" by blast
  from colmajor_roundtrip_Inr(1) [OF e(1-5) a b]
  have "block_at (host w2) (data m2) = Some (colmajor 2 3 (colmajor 2 3 [d1, d2, d3, d4, d5, d6]))" .
  also have "colmajor 2 3 (colmajor 2 3 [d1, d2, d3, d4, d5, d6]) = [d1, d5, d4, d3, d2, d6]"
    by (simp add: colmajor_def upt_rec)
  finally have "block_at (host w2) (data m2) = Some [d1, d5, d4, d3, d2, d6]" .
  moreover have "rows (ex_objs 1) = 2" and "cols (ex_objs 1) = 3" by (simp_all add: ex_objs_def)
  ultimately show ?thesis using a b e(1) by blast
qed

end
